theory Spec2Isabelle
  imports Complex_Main "HOL-Library.Sublist" "HOL-Library.Multiset"
begin

section \<open>Strings of the host language\<close>

text \<open>
  A string of the program is a sequence of UTF-16 code units; a code unit is modelled as a
  natural number. \<open>str\<close> turns a literal of the theory into such a sequence.
\<close>

type_synonym js_string = "nat list"

definition str :: "string \<Rightarrow> js_string" where
  "str s = map of_char s"

text \<open>
  The white space of the regular expression class \<^verbatim>\<open>\s\<close> and of \<^verbatim>\<open>trim()\<close>: TAB, LF, VT,
  FF, CR, SPACE, NBSP, U+1680, U+2000 to U+200A, U+2028, U+2029, U+202F, U+205F, U+3000 and
  U+FEFF.
\<close>

definition isSpace :: "nat \<Rightarrow> bool" where
  "isSpace c =
     (c = 9 \<or> c = 10 \<or> c = 11 \<or> c = 12 \<or> c = 13 \<or> c = 32 \<or> c = 160 \<or> c = 5760
      \<or> (8192 \<le> c \<and> c \<le> 8202)
      \<or> c = 8232 \<or> c = 8233 \<or> c = 8239 \<or> c = 8287 \<or> c = 12288 \<or> c = 65279)"

text \<open>The class \<^verbatim>\<open>[a-z0-9]\<close>.\<close>

definition isAlnum :: "nat \<Rightarrow> bool" where
  "isAlnum c = ((97 \<le> c \<and> c \<le> 122) \<or> (48 \<le> c \<and> c \<le> 57))"

text \<open>
  \<^verbatim>\<open>toLowerCase()\<close>, code unit by code unit. The Basic Latin capitals go to their small
  letters. Two code units outside Basic Latin have a lower case inside it and are mapped as
  the platform maps them: U+212A (KELVIN SIGN) to \<^verbatim>\<open>k\<close>, and U+0130 to \<^verbatim>\<open>i\<close> followed by
  U+0307. Every other code unit is left as it is: the further case pairs of Unicode lie
  outside \<^verbatim>\<open>[a-z0-9]\<close> and outside the white space on both sides, so they change nothing of
  what \<open>extractKeywords\<close> returns, nor whether a keyword occurs in a lower-cased content
  or title. Only the phrase test on a query with capitals outside Basic Latin can see them;
  the results below are stated for every query and do not depend on such pairs.
\<close>

definition lowerUnit :: "nat \<Rightarrow> js_string" where
  "lowerUnit c =
     (if 65 \<le> c \<and> c \<le> 90 then [c + 32]
      else if c = 8490 then [107]
      else if c = 304 then [105, 775]
      else [c])"

definition toLowerCase :: "js_string \<Rightarrow> js_string" where
  "toLowerCase s = concat (map lowerUnit s)"

text \<open>\<^verbatim>\<open>s.startsWith(t)\<close>, \<^verbatim>\<open>s.endsWith(t)\<close> and \<^verbatim>\<open>s.includes(t)\<close> on strings.\<close>

fun startsWith :: "'a list \<Rightarrow> 'a list \<Rightarrow> bool" where
  "startsWith s [] = True"
| "startsWith [] (y # ys) = False"
| "startsWith (x # xs) (y # ys) = (x = y \<and> startsWith xs ys)"

definition endsWith :: "'a list \<Rightarrow> 'a list \<Rightarrow> bool" where
  "endsWith s t = startsWith (rev s) (rev t)"

fun str_includes :: "'a list \<Rightarrow> 'a list \<Rightarrow> bool" where
  "str_includes [] t = (t = [])"
| "str_includes (x # xs) t = (startsWith (x # xs) t \<or> str_includes xs t)"

text \<open>\<^verbatim>\<open>trim()\<close> removes the white space at both ends.\<close>

definition trim :: "js_string \<Rightarrow> js_string" where
  "trim s = rev (dropWhile isSpace (rev (dropWhile isSpace s)))"

text \<open>
  \<^verbatim>\<open>s.split(/[...]+/)\<close> for a character class: the pieces between the maximal runs of
  separators. A separator at the start or at the end leaves an empty piece there, and the
  empty string gives one empty piece.
\<close>

function splitOn :: "('a \<Rightarrow> bool) \<Rightarrow> 'a list \<Rightarrow> 'a list list" where
  "splitOn sep [] = [[]]"
| "splitOn sep (c # cs) =
     (if sep c then [] # splitOn sep (dropWhile sep cs)
      else (case splitOn sep cs of [] \<Rightarrow> [[c]] | p # ps \<Rightarrow> (c # p) # ps))"
  by pat_completeness auto
termination
proof (relation "measure (\<lambda>(sep, cs). length cs)")
  show "wf (measure (\<lambda>(sep :: 'a \<Rightarrow> bool, cs :: 'a list). length cs))"
    by simp
next
  fix sep :: "'a \<Rightarrow> bool" and c :: 'a and cs :: "'a list"
  have "length (dropWhile sep cs) \<le> length cs"
    by (rule length_dropWhile_le)
  then show "((sep, dropWhile sep cs), sep, c # cs) \<in> measure (\<lambda>(sep, cs). length cs)"
    by simp
next
  fix sep :: "'a \<Rightarrow> bool" and c :: 'a and cs :: "'a list"
  show "((sep, cs), sep, c # cs) \<in> measure (\<lambda>(sep, cs). length cs)"
    by simp
qed

text \<open>\<^verbatim>\<open>parts.join(sep)\<close>.\<close>

fun join :: "'a list \<Rightarrow> 'a list list \<Rightarrow> 'a list" where
  "join sep [] = []"
| "join sep [p] = p"
| "join sep (p # q # ps) = p @ sep @ join sep (q # ps)"

text \<open>
  \<^verbatim>\<open>xs.sort(cmp)\<close>: a stable sort; an element stays in front of the later elements that the
  comparator does not put before it.
\<close>

fun insort_cmp :: "('a \<Rightarrow> 'a \<Rightarrow> int) \<Rightarrow> 'a \<Rightarrow> 'a list \<Rightarrow> 'a list" where
  "insort_cmp cmp x [] = [x]"
| "insort_cmp cmp x (y # ys) =
     (if cmp x y \<le> 0 then x # y # ys else y # insort_cmp cmp x ys)"

definition js_sort :: "('a \<Rightarrow> 'a \<Rightarrow> int) \<Rightarrow> 'a list \<Rightarrow> 'a list" where
  "js_sort cmp xs = foldr (insort_cmp cmp) xs []"

section \<open>Keyword extraction\<close>

text \<open>The stop words of \<^verbatim>\<open>portal/js/chatbot.js\<close> and of the assistant (\<^verbatim>\<open>part_003\<close>, \<^verbatim>\<open>part_004\<close>).\<close>

definition stopWords_base :: "js_string list" where
  "stopWords_base = map str
     [''the'', ''a'', ''an'', ''and'', ''or'', ''but'', ''in'', ''on'', ''at'', ''to'', ''for'',
      ''of'', ''with'', ''by'', ''is'', ''are'', ''was'', ''were'', ''be'', ''been'', ''have'',
      ''has'', ''had'', ''do'', ''does'', ''did'', ''will'', ''would'', ''could'', ''should'',
      ''this'', ''that'', ''these'', ''those'', ''it'', ''its'', ''as'', ''from'', ''can'',
      ''may'', ''which'', ''who'', ''what'', ''when'', ''where'', ''how'', ''all'', ''each'',
      ''every'', ''both'', ''few'', ''more'', ''most'', ''other'', ''some'', ''such'', ''no'',
      ''not'', ''only'', ''same'', ''than'', ''too'', ''very'']"

definition stopWords_hf :: "js_string list" where
  "stopWords_hf = map str
     [''the'', ''a'', ''an'', ''and'', ''or'', ''but'', ''in'', ''on'', ''at'', ''to'', ''for'',
      ''of'', ''with'', ''by'', ''is'', ''are'', ''was'', ''were'', ''be'', ''been'', ''have'',
      ''has'', ''had'', ''do'', ''does'', ''did'', ''will'', ''would'', ''could'', ''should'',
      ''this'', ''that'', ''these'', ''those'', ''it'', ''its'', ''as'', ''from'', ''can'',
      ''may'', ''which'', ''who'', ''what'', ''when'', ''where'', ''how'', ''all'', ''each'',
      ''every'', ''both'', ''few'', ''more'', ''most'', ''other'', ''some'', ''such'', ''no'',
      ''not'', ''only'', ''same'', ''than'', ''too'', ''very'', ''just'', ''also'', ''into'',
      ''over'', ''after'', ''before'', ''between'', ''under'', ''above'', ''below'', ''about'',
      ''there'', ''here'']"

text \<open>\<^verbatim>\<open>.replace(/[^a-z0-9\s]/g, ' ')\<close>.\<close>

definition stripNonAlnum :: "js_string \<Rightarrow> js_string" where
  "stripNonAlnum s = map (\<lambda>c. if isAlnum c \<or> isSpace c then c else 32) s"

text \<open>The tokens: \<^verbatim>\<open>text.toLowerCase().replace(...).split(/\s+/)\<close>.\<close>

definition tokens :: "js_string \<Rightarrow> js_string list" where
  "tokens text = splitOn isSpace (stripNonAlnum (toLowerCase text))"

text \<open>
  \<^verbatim>\<open>extractKeywords\<close>: the tokens longer than two code units that are no stop words, as the
  array that \<^verbatim>\<open>filter\<close> returns. The two source variants differ in the stop list only.
\<close>

definition extractKeywordsWith :: "js_string list \<Rightarrow> js_string \<Rightarrow> js_string list" where
  "extractKeywordsWith stop text =
     filter (\<lambda>word. length word > 2 \<and> word \<notin> set stop) (tokens text)"

definition extractKeywords_base :: "js_string \<Rightarrow> js_string list" where
  "extractKeywords_base text = extractKeywordsWith stopWords_base text"

definition extractKeywords_hf :: "js_string \<Rightarrow> js_string list" where
  "extractKeywords_hf text = extractKeywordsWith stopWords_hf text"

text \<open>
  A code unit of a word, for stating what \<open>extractKeywords\<close> returns: a letter or a
  digit of Basic Latin.
\<close>

definition isWordUnit :: "nat \<Rightarrow> bool" where
  "isWordUnit c = (isAlnum c \<or> (65 \<le> c \<and> c \<le> 90))"

section \<open>The knowledge base and the search\<close>

text \<open>
  An entry of the knowledge base. In \<^verbatim>\<open>chatbot.js\<close> every entry is built with its keywords
  (\<open>'k\<close> is a list of strings); the assistant also loads entries of a pre-built index and
  guards \<^verbatim>\<open>item.keywords\<close>, so there the field may be absent (\<open>'k\<close> is an optional
  list). A scored entry is \<^verbatim>\<open>{ ...item, score }\<close>. Scores are sums of small integers.
\<close>

record 'k chunk =
  id_fld :: js_string
  title :: js_string
  category :: js_string
  content :: js_string
  keywords_fld :: 'k

record 'k scored_chunk = "'k chunk" +
  score :: int

definition withScore :: "'k chunk \<Rightarrow> int \<Rightarrow> 'k scored_chunk" where
  "withScore item s =
     \<lparr>id_fld = id_fld item, title = title item, category = category item,
      content = content item, keywords_fld = keywords_fld item, score = s\<rparr>"

subsection \<open>\<^verbatim>\<open>searchKnowledge\<close> of \<^verbatim>\<open>portal/js/chatbot.js\<close>\<close>

text \<open>The body of the first loop, for one keyword: three tests, each adding to the score.\<close>

definition keywordStep_base ::
  "js_string list chunk \<Rightarrow> js_string \<Rightarrow> js_string \<Rightarrow> int \<Rightarrow> js_string \<Rightarrow> int" where
  "keywordStep_base item contentLower query score0 keyword =
     (let score1 = (if keyword \<in> set (keywords_fld item) then score0 + 2 else score0);
          score2 = (if str_includes contentLower keyword then score1 + 1 else score1);
          score3 = (if str_includes contentLower (toLowerCase query) then score2 + 5 else score2)
      in score3)"

definition titleStep_base :: "js_string \<Rightarrow> int \<Rightarrow> js_string \<Rightarrow> int" where
  "titleStep_base titleLower score0 keyword =
     (if str_includes titleLower keyword then score0 + 3 else score0)"

definition score_base :: "js_string list chunk \<Rightarrow> js_string \<Rightarrow> js_string list \<Rightarrow> int" where
  "score_base item query queryKeywords =
     (let contentLower = toLowerCase (content item);
          score1 = foldl (keywordStep_base item contentLower query) 0 queryKeywords;
          titleLower = toLowerCase (title item)
      in foldl (titleStep_base titleLower) score1 queryKeywords)"

definition scored_base ::
  "js_string list chunk list \<Rightarrow> js_string \<Rightarrow> js_string list \<Rightarrow> js_string list scored_chunk list" where
  "scored_base knowledgeBase query queryKeywords =
     map (\<lambda>item. withScore item (score_base item query queryKeywords)) knowledgeBase"

text \<open>
  \<open>topK\<close> is a count of results (the callers pass 3, 5 or 8), so \<^verbatim>\<open>slice(0, topK)\<close> is
  \<open>take topK\<close>.
\<close>

definition searchKnowledge_base ::
  "js_string list chunk list \<Rightarrow> js_string \<Rightarrow> nat \<Rightarrow> js_string list scored_chunk list" where
  "searchKnowledge_base knowledgeBase query topK =
     (let queryKeywords = extractKeywords_base query
      in if length queryKeywords = 0 then []
         else take topK
                (js_sort (\<lambda>a b. score b - score a)
                   (filter (\<lambda>item. score item > 0)
                      (scored_base knowledgeBase query queryKeywords))))"

subsection \<open>\<^verbatim>\<open>searchKnowledge\<close> of the assistant (\<^verbatim>\<open>part_003\<close>, \<^verbatim>\<open>part_004\<close>)\<close>

definition keywordStep_hf ::
  "js_string list option chunk \<Rightarrow> js_string \<Rightarrow> js_string \<Rightarrow> int \<Rightarrow> js_string \<Rightarrow> int" where
  "keywordStep_hf item contentL titleL score0 kw =
     (let score1 = (if (case keywords_fld item of None \<Rightarrow> False | Some ks \<Rightarrow> kw \<in> set ks)
                    then score0 + 3 else score0);
          score2 = (if str_includes contentL kw then score1 + 2 else score1);
          score3 = (if str_includes titleL kw then score2 + 4 else score2)
      in score3)"

definition score_hf :: "js_string list option chunk \<Rightarrow> js_string \<Rightarrow> js_string list \<Rightarrow> int" where
  "score_hf item query kws =
     (let contentL = toLowerCase (content item);
          titleL = toLowerCase (title item);
          score1 = foldl (keywordStep_hf item contentL titleL) 0 kws
      in if str_includes contentL (toLowerCase query) then score1 + 10 else score1)"

definition scored_hf ::
  "js_string list option chunk list \<Rightarrow> js_string \<Rightarrow> js_string list
     \<Rightarrow> js_string list option scored_chunk list" where
  "scored_hf knowledgeBase query kws =
     map (\<lambda>item. withScore item (score_hf item query kws)) knowledgeBase"

definition searchKnowledge_hf ::
  "js_string list option chunk list \<Rightarrow> js_string \<Rightarrow> nat
     \<Rightarrow> js_string list option scored_chunk list" where
  "searchKnowledge_hf knowledgeBase query topK =
     (let kws = extractKeywords_hf query
      in if length kws = 0 then []
         else take topK
                (js_sort (\<lambda>a b. score b - score a)
                   (filter (\<lambda>i. score i > 2) (scored_hf knowledgeBase query kws))))"

section \<open>Chunking\<close>

text \<open>
  The sentence separators: \<^verbatim>\<open>[.!?]\<close> in \<^verbatim>\<open>splitIntoChunks\<close> of \<^verbatim>\<open>chatbot.js\<close>, and the
  same with the danda U+0964 in \<^verbatim>\<open>splitText\<close> of the assistant.
\<close>

definition isSentenceSep_base :: "nat \<Rightarrow> bool" where
  "isSentenceSep_base c = (c = 46 \<or> c = 33 \<or> c = 63)"

definition isSentenceSep_hf :: "nat \<Rightarrow> bool" where
  "isSentenceSep_hf c = (c = 46 \<or> c = 33 \<or> c = 63 \<or> c = 2404)"

text \<open>
  The loop over the sentences, with the chunks pushed so far and the running buffer as its
  state. It returns both when the sentences are used up.
\<close>

fun chunkLoop ::
  "nat \<Rightarrow> js_string list \<Rightarrow> js_string \<Rightarrow> js_string list \<Rightarrow> js_string list \<times> js_string" where
  "chunkLoop chunkSize chunks current [] = (chunks, current)"
| "chunkLoop chunkSize chunks current (s # ss) =
     (if length (current @ s) > chunkSize \<and> length current > 0
      then chunkLoop chunkSize (chunks @ [trim current]) s ss
      else chunkLoop chunkSize chunks (current @ 32 # s) ss)"

definition splitWith :: "(nat \<Rightarrow> bool) \<Rightarrow> js_string \<Rightarrow> nat \<Rightarrow> js_string list" where
  "splitWith sep text chunkSize =
     (let sentences = splitOn sep text;
          (chunks, current) = chunkLoop chunkSize [] [] sentences
      in if trim current \<noteq> [] then chunks @ [trim current] else chunks)"

definition splitIntoChunks :: "js_string \<Rightarrow> nat \<Rightarrow> js_string list" where
  "splitIntoChunks text chunkSize = splitWith isSentenceSep_base text chunkSize"

definition splitText :: "js_string \<Rightarrow> nat \<Rightarrow> js_string list" where
  "splitText text chunkSize = splitWith isSentenceSep_hf text chunkSize"

section \<open>Answer synthesis\<close>

subsection \<open>\<^verbatim>\<open>generateAnswer\<close> of \<^verbatim>\<open>portal/js/chatbot.js\<close>\<close>

record answer_base =
  answer_b :: js_string
  source_b :: js_string
  category_b :: js_string

definition endDot :: "js_string \<Rightarrow> js_string" where
  "endDot a = (if \<not> endsWith a (str ''.'') then a @ str ''.'' else a)"

text \<open>
  The sentences of the top chunk that are longer than 10 code units after trimming, and
  those of them that contain a keyword of the query (at most three).
\<close>

definition sentences_base :: "js_string \<Rightarrow> js_string list" where
  "sentences_base topContent =
     filter (\<lambda>s. length (trim s) > 10) (splitOn isSentenceSep_base topContent)"

definition relevant_base :: "js_string \<Rightarrow> js_string list \<Rightarrow> js_string list" where
  "relevant_base query sentences =
     (let queryWords = extractKeywords_base query
      in take 3 (filter (\<lambda>sentence.
                   list_ex (\<lambda>word. str_includes (toLowerCase sentence) word) queryWords)
                 sentences))"

definition generateAnswer_base ::
  "js_string \<Rightarrow> js_string list scored_chunk list \<Rightarrow> answer_base option" where
  "generateAnswer_base query contexts =
     (case contexts of
        [] \<Rightarrow> None
      | topContext # _ \<Rightarrow>
          (let sentences = sentences_base (content topContext);
               relevantSentences = relevant_base query sentences;
               answer =
                 (if length relevantSentences > 0
                  then endDot (trim (join (str ''. '') relevantSentences))
                  else endDot (trim (join (str ''. '') (take 2 sentences))))
           in Some \<lparr>answer_b = answer, source_b = title topContext,
                     category_b = category topContext\<rparr>))"

subsection \<open>\<^verbatim>\<open>generateAnswer\<close> of the assistant (\<^verbatim>\<open>part_003\<close>, \<^verbatim>\<open>part_004\<close>)\<close>













section \<open>The remote search and its fallback\<close>

text \<open>
  \<^verbatim>\<open>semanticSearch\<close> asks \<^verbatim>\<open>/api/search\<close> and falls back to the local search. What the
  service does is an input of the model: \<^verbatim>\<open>fetch\<close> rejects, or it gives a response with its
  \<^verbatim>\<open>ok\<close> flag and a body; \<^verbatim>\<open>response.json()\<close> rejects, or it gives the parsed value,
  which is any value of JSON. A number stands for the parsed number; the code reads of it
  only whether it is zero and whether it is greater than zero.
\<close>

datatype js_error = NetworkError | SyntaxError | TypeError

datatype json =
  JNull
| JBool bool
| JNum rat
| JStr js_string
| JArr "json list"
| JObj "(js_string \<times> json) list"

datatype response = Response (ok: bool) (json: "js_error + json")

text \<open>The truth value of a parsed value in a condition.\<close>

fun truthy :: "json \<Rightarrow> bool" where
  "truthy JNull = False"
| "truthy (JBool b) = b"
| "truthy (JNum n) = (n \<noteq> 0)"
| "truthy (JStr s) = (s \<noteq> [])"
| "truthy (JArr xs) = True"
| "truthy (JObj kvs) = True"

text \<open>
  Reading a property whose name is no array index (the code reads \<^verbatim>\<open>success\<close>,
  \<^verbatim>\<open>results\<close> and \<^verbatim>\<open>length\<close>): of \<^verbatim>\<open>null\<close> it throws a \<^verbatim>\<open>TypeError\<close>; a string and an
  array have their \<^verbatim>\<open>length\<close> and nothing else; an object has the properties of its
  text, the last one winning when a name is repeated; \<open>None\<close> is \<^verbatim>\<open>undefined\<close>.
\<close>

fun readProp :: "json \<Rightarrow> js_string \<Rightarrow> js_error + json option" where
  "readProp JNull name = Inl TypeError"
| "readProp (JBool b) name = Inr None"
| "readProp (JNum n) name = Inr None"
| "readProp (JStr s) name =
     Inr (if name = str ''length'' then Some (JNum (of_nat (length s))) else None)"
| "readProp (JArr xs) name =
     Inr (if name = str ''length'' then Some (JNum (of_nat (length xs))) else None)"
| "readProp (JObj kvs) name = Inr (map_of (rev kvs) name)"

definition truthyProp :: "json option \<Rightarrow> bool" where
  "truthyProp v = (case v of None \<Rightarrow> False | Some x \<Rightarrow> truthy x)"

text \<open>
  The comparison \<^verbatim>\<open>v > 0\<close>: \<^verbatim>\<open>undefined\<close> and \<^verbatim>\<open>null\<close> are not greater, \<^verbatim>\<open>true\<close> is,
  a number is compared as it is. A string, an array or an object is first turned into a
  number by the platform; whether that number is greater than zero is the parameter
  \<open>numPositive\<close>. Only a \<^verbatim>\<open>results\<close> object with a \<^verbatim>\<open>length\<close> property of such a kind
  gets there.
\<close>

definition greaterZero :: "(json \<Rightarrow> bool) \<Rightarrow> json option \<Rightarrow> bool" where
  "greaterZero numPositive v =
     (case v of
        None \<Rightarrow> False
      | Some JNull \<Rightarrow> False
      | Some (JBool b) \<Rightarrow> b
      | Some (JNum n) \<Rightarrow> n > 0
      | Some x \<Rightarrow> numPositive x)"

text \<open>
  The \<^verbatim>\<open>try\<close> block: \<open>Inl\<close> when it throws, \<open>Inr (Some r)\<close> when it returns \<open>r\<close>,
  \<open>Inr None\<close> when control leaves it without a return. The condition
  \<^verbatim>\<open>data.success && data.results && data.results.length > 0\<close> is read from left to right
  and stops at the first falsy part. The two \<^verbatim>\<open>console.log\<close> calls in between read
  \<^verbatim>\<open>data.results[0]\<close> behind a guard and cannot throw on a parsed value; they are left out.
\<close>

definition tryRemote :: "(json \<Rightarrow> bool) \<Rightarrow> js_error + response \<Rightarrow> js_error + json option" where
  "tryRemote numPositive fetched =
     (case fetched of
        Inl e \<Rightarrow> Inl e
      | Inr response \<Rightarrow>
          if ok response then
            (case json response of
               Inl e \<Rightarrow> Inl e
             | Inr data \<Rightarrow>
                 (case readProp data (str ''success'') of
                    Inl e \<Rightarrow> Inl e
                  | Inr succ \<Rightarrow>
                      if \<not> truthyProp succ then Inr None
                      else
                        (case readProp data (str ''results'') of
                           Inl e \<Rightarrow> Inl e
                         | Inr None \<Rightarrow> Inr None
                         | Inr (Some res) \<Rightarrow>
                             if \<not> truthy res then Inr None
                             else
                               (case readProp res (str ''length'') of
                                  Inl e \<Rightarrow> Inl e
                                | Inr len \<Rightarrow>
                                    if greaterZero numPositive len then Inr (Some res)
                                    else Inr None))))
          else Inr None)"

text \<open>
  What \<open>semanticSearch\<close> returns: \<^verbatim>\<open>data.results\<close> as the service sent it, or the result
  of the local search. An error caught by \<^verbatim>\<open>catch\<close> is logged and the local search runs.
\<close>

datatype search_result =
  Remote json
| Local "js_string list option scored_chunk list"

definition semanticSearch ::
  "(json \<Rightarrow> bool) \<Rightarrow> js_error + response
     \<Rightarrow> js_string list option chunk list \<Rightarrow> js_string \<Rightarrow> nat \<Rightarrow> search_result" where
  "semanticSearch numPositive fetched knowledgeBase query topK =
     (case tryRemote numPositive fetched of
        Inr (Some res) \<Rightarrow> Remote res
      | Inr None \<Rightarrow> Local (searchKnowledge_hf knowledgeBase query topK)
      | Inl e \<Rightarrow> Local (searchKnowledge_hf knowledgeBase query topK))"

section \<open>The parts of a score\<close>

text \<open>
  What a query's keywords earn on an entry, keyword by keyword, leaving the phrase test out;
  and the phrase test itself. The scores of the two variants are compared with these below.
\<close>

definition keywordSignal_base :: "js_string list chunk \<Rightarrow> js_string list \<Rightarrow> int" where
  "keywordSignal_base item kws =
     sum_list (map (\<lambda>kw. (if kw \<in> set (keywords_fld item) then 2 else 0)
                        + (if str_includes (toLowerCase (content item)) kw then 1 else 0)
                        + (if str_includes (toLowerCase (title item)) kw then 3 else 0)) kws)"

definition keywordSignal_hf :: "js_string list option chunk \<Rightarrow> js_string list \<Rightarrow> int" where
  "keywordSignal_hf item kws =
     sum_list (map (\<lambda>kw. (if (case keywords_fld item of None \<Rightarrow> False | Some ks \<Rightarrow> kw \<in> set ks)
                         then 3 else 0)
                        + (if str_includes (toLowerCase (content item)) kw then 2 else 0)
                        + (if str_includes (toLowerCase (title item)) kw then 4 else 0)) kws)"

definition phraseMatch :: "('k, 'm) chunk_scheme \<Rightarrow> js_string \<Rightarrow> bool" where
  "phraseMatch item query = str_includes (toLowerCase (content item)) (toLowerCase query)"

section \<open>Notions used to state the chunking results\<close>

text \<open>
  \<open>squash\<close> removes the white space of a string: it compares strings up to the white
  space that \<open>splitWith\<close> trims and inserts. \<open>bufferOf cur g\<close> relates the running
  buffer of the loop to the run \<open>g\<close> of sentences gathered in it: the buffer is the
  sentences joined by single spaces, with a leading space when the run began on the empty
  buffer.
\<close>

definition squash :: "js_string \<Rightarrow> js_string" where
  "squash s = filter (\<lambda>c. \<not> isSpace c) s"

definition bufferOf :: "js_string \<Rightarrow> js_string list \<Rightarrow> bool" where
  "bufferOf cur g \<longleftrightarrow>
     (g = [] \<and> cur = []) \<or> (g \<noteq> [] \<and> (cur = join [32] g \<or> cur = 32 # join [32] g))"

text \<open>
  \<open>boundedBuffer n A cur\<close> is what the loop keeps true of its buffer for the chunk size
  \<open>n\<close> and the sentences \<open>A\<close>: the buffer is empty, or at most \<open>n + 1\<close> long, or one
  sentence, with or without a leading space.
\<close>

definition boundedBuffer :: "nat \<Rightarrow> js_string set \<Rightarrow> js_string \<Rightarrow> bool" where
  "boundedBuffer n A cur \<longleftrightarrow>
     cur = [] \<or> length cur \<le> n + 1 \<or> (\<exists>s \<in> A. cur = s \<or> cur = 32 # s)"

section \<open>Example data\<close>

definition waterChunk :: "js_string list chunk" where
  "waterChunk =
     \<lparr>id_fld = str ''sci_0'', title = str ''Science'', category = str ''textbooks'',
      content = str ''The water cycle includes evaporation'',
      keywords_fld = map str [''water'', ''cycle'', ''includes'', ''evaporation'']\<rparr>"

definition plantChunk :: "js_string list chunk" where
  "plantChunk =
     \<lparr>id_fld = str ''sci_1'', title = str ''Science'', category = str ''textbooks'',
      content = str ''Plants need water to grow'',
      keywords_fld = map str [''plants'', ''need'', ''water'', ''grow'']\<rparr>"

definition rockChunk :: "js_string list chunk" where
  "rockChunk =
     \<lparr>id_fld = str ''geo_0'', title = str ''Geography'', category = str ''textbooks'',
      content = str ''Rivers carry water'',
      keywords_fld = map str [''rivers'', ''carry'', ''water'']\<rparr>"

definition hfChunk :: "js_string list chunk \<Rightarrow> js_string list option chunk" where
  "hfChunk item =
     \<lparr>id_fld = id_fld item, title = title item, category = category item,
      content = content item, keywords_fld = Some (keywords_fld item)\<rparr>"

definition exampleKB :: "js_string list chunk list" where
  "exampleKB = [plantChunk, waterChunk, rockChunk]"

definition exampleKB_hf :: "js_string list option chunk list" where
  "exampleKB_hf = map hfChunk exampleKB"


definition tinyChunk :: "js_string list chunk" where
  "tinyChunk =
     \<lparr>id_fld = str ''geo_1'', title = str ''Geography'', category = str ''textbooks'',
      content = str ''Rocks'', keywords_fld = [str ''rocks'']\<rparr>"

text \<open>
  A text of three sentences of 500, 250 and 250 letters, for the chunk size 500 that
  \<^verbatim>\<open>buildKnowledgeBase\<close> passes.
\<close>

definition longText :: js_string where
  "longText = replicate 500 97 @ 46 # replicate 250 98 @ 46 # replicate 250 99"

section \<open>Evaluation\<close>

lemmas eval_defs =
  str_def isSpace_def isAlnum_def lowerUnit_def toLowerCase_def trim_def stripNonAlnum_def
  tokens_def extractKeywordsWith_def extractKeywords_base_def extractKeywords_hf_def
  stopWords_base_def stopWords_hf_def withScore_def keywordStep_base_def titleStep_base_def
  score_base_def scored_base_def searchKnowledge_base_def keywordStep_hf_def score_hf_def
  scored_hf_def searchKnowledge_hf_def js_sort_def endsWith_def Let_def
  waterChunk_def plantChunk_def rockChunk_def hfChunk_def exampleKB_def exampleKB_hf_def
  keywordSignal_base_def keywordSignal_hf_def phraseMatch_def
  splitIntoChunks_def splitText_def splitWith_def isSentenceSep_base_def isSentenceSep_hf_def
  squash_def

section \<open>Ranking: length, order, ties and floor\<close>

lemma insort_cmp_score:
  "insort_cmp (\<lambda>a b. score b - score a) x ys = insort_key (\<lambda>c. - score c) x ys"
  by (induction ys) auto

lemma js_sort_score:
  "js_sort (\<lambda>a b. score b - score a) xs = sort_key (\<lambda>c. - score c) xs"
  by (induction xs) (simp_all add: js_sort_def insort_cmp_score)

lemma ranked_length: "length (take k (js_sort cmp xs)) \<le> k"
  by simp

lemma ranked_sorted:
  "sorted_wrt (\<lambda>a b. score a \<ge> score b) (take k (js_sort (\<lambda>a b. score b - score a) xs))"
proof -
  have "sorted (map (\<lambda>c. - score c) (sort_key (\<lambda>c. - score c) xs))"
    by (rule sorted_sort_key)
  then have "sorted_wrt (\<lambda>a b. score a \<ge> score b) (sort_key (\<lambda>c. - score c) xs)"
    by (simp add: sorted_map)
  then have "sorted_wrt (\<lambda>a b. score a \<ge> score b) (take k (sort_key (\<lambda>c. - score c) xs))"
    by (rule sorted_wrt_take)
  then show ?thesis
    by (simp add: js_sort_score)
qed

lemma ranked_floor:
  assumes "c \<in> set (take k (js_sort (\<lambda>a b. score b - score a) (filter (\<lambda>i. score i > fl) xs)))"
  shows "score c > fl"
proof -
  from assms have "c \<in> set (sort_key (\<lambda>c. - score c) (filter (\<lambda>i. score i > fl) xs))"
    by (auto simp: js_sort_score dest: in_set_takeD)
  then show ?thesis
    by simp
qed

lemma ranked_ties:
  "prefix (filter (\<lambda>c. score c = v)
             (take k (js_sort (\<lambda>a b. score b - score a) (filter (\<lambda>i. score i > fl) xs))))
          (filter (\<lambda>c. score c = v) xs)"
proof -
  let ?ys = "filter (\<lambda>i. score i > fl) xs"
  have eq: "(\<lambda>c. score c = v) = (\<lambda>c. - score c = - v)"
    by auto
  have "prefix (filter (\<lambda>c. score c = v) (take k (sort_key (\<lambda>c. - score c) ?ys)))
               (filter (\<lambda>c. score c = v) (sort_key (\<lambda>c. - score c) ?ys))"
    by (rule filter_mono_prefix) (rule take_is_prefix)
  moreover have "filter (\<lambda>c. score c = v) (sort_key (\<lambda>c. - score c) ?ys)
                 = filter (\<lambda>c. score c = v) ?ys"
    unfolding eq by (rule sort_key_stable)
  moreover have "prefix (filter (\<lambda>c. score c = v) ?ys) (filter (\<lambda>c. score c = v) xs)"
  proof (cases "v > fl")
    case True
    then have "filter (\<lambda>c. score c = v) ?ys = filter (\<lambda>c. score c = v) xs"
      by (auto intro: filter_cong)
    then show ?thesis by simp
  next
    case False
    then have "filter (\<lambda>c. score c = v) ?ys = []"
      by (auto simp: filter_empty_conv)
    then show ?thesis by simp
  qed
  ultimately show ?thesis
    by (simp add: js_sort_score)
qed

text \<open>
  Claim C2. For every knowledge base, query and \<open>topK\<close>, \<open>searchKnowledge\<close> returns at
  most \<open>topK\<close> results, in order of non-increasing score; every returned score is above
  the floor of the variant (0 in \<^verbatim>\<open>chatbot.js\<close>, 2 in the assistant); and for every score
  value, the returned entries of that score are an initial part of the entries of that
  score in the order of the knowledge base, so among equal scores the entry seen first wins.
\<close>

theorem searchKnowledge_ranked:
  "length (searchKnowledge_base kb q topK) \<le> topK
   \<and> sorted_wrt (\<lambda>a b. score a \<ge> score b) (searchKnowledge_base kb q topK)
   \<and> (\<forall>c \<in> set (searchKnowledge_base kb q topK). score c > 0)
   \<and> (\<forall>v. prefix (filter (\<lambda>c. score c = v) (searchKnowledge_base kb q topK))
                  (filter (\<lambda>c. score c = v) (scored_base kb q (extractKeywords_base q))))
   \<and> length (searchKnowledge_hf kbh q topK) \<le> topK
   \<and> sorted_wrt (\<lambda>a b. score a \<ge> score b) (searchKnowledge_hf kbh q topK)
   \<and> (\<forall>c \<in> set (searchKnowledge_hf kbh q topK). score c > 2)
   \<and> (\<forall>v. prefix (filter (\<lambda>c. score c = v) (searchKnowledge_hf kbh q topK))
                  (filter (\<lambda>c. score c = v) (scored_hf kbh q (extractKeywords_hf q))))"
proof -
  have b1: "length (searchKnowledge_base kb q topK) \<le> topK"
    by (simp add: searchKnowledge_base_def Let_def)
  have b2: "sorted_wrt (\<lambda>a b. score a \<ge> score b) (searchKnowledge_base kb q topK)"
    by (simp add: searchKnowledge_base_def Let_def ranked_sorted)
  have b3: "\<forall>c \<in> set (searchKnowledge_base kb q topK). score c > 0"
    by (auto simp: searchKnowledge_base_def Let_def dest: ranked_floor)
  have b4: "\<forall>v. prefix (filter (\<lambda>c. score c = v) (searchKnowledge_base kb q topK))
                  (filter (\<lambda>c. score c = v) (scored_base kb q (extractKeywords_base q)))"
    by (simp add: searchKnowledge_base_def Let_def ranked_ties)
  have h1: "length (searchKnowledge_hf kbh q topK) \<le> topK"
    by (simp add: searchKnowledge_hf_def Let_def)
  have h2: "sorted_wrt (\<lambda>a b. score a \<ge> score b) (searchKnowledge_hf kbh q topK)"
    by (simp add: searchKnowledge_hf_def Let_def ranked_sorted)
  have h3: "\<forall>c \<in> set (searchKnowledge_hf kbh q topK). score c > 2"
    by (auto simp: searchKnowledge_hf_def Let_def dest: ranked_floor)
  have h4: "\<forall>v. prefix (filter (\<lambda>c. score c = v) (searchKnowledge_hf kbh q topK))
                  (filter (\<lambda>c. score c = v) (scored_hf kbh q (extractKeywords_hf q)))"
    by (simp add: searchKnowledge_hf_def Let_def ranked_ties)
  from b1 b2 b3 b4 h1 h2 h3 h4 show ?thesis
    by blast
qed

text \<open>
  The theorem at a knowledge base of three entries, two of them with equal scores, and the
  query \<^verbatim>\<open>water cycle\<close> with \<open>topK = 2\<close>: of the two entries that tie, the one that comes
  first in the knowledge base is returned.
\<close>

theorem searchKnowledge_ranked_witness:
  "scored_base exampleKB (str ''water cycle'') (extractKeywords_base (str ''water cycle''))
     = [withScore plantChunk 3, withScore waterChunk 16, withScore rockChunk 3]
   \<and> searchKnowledge_base exampleKB (str ''water cycle'') 2
     = [withScore waterChunk 16, withScore plantChunk 3]
   \<and> searchKnowledge_hf exampleKB_hf (str ''water cycle'') 2
     = [withScore (hfChunk waterChunk) 20, withScore (hfChunk plantChunk) 5]
   \<and> list_all (\<lambda>c. score c > 0) (searchKnowledge_base exampleKB (str ''water cycle'') 2)
   \<and> list_all (\<lambda>c. score c > 2) (searchKnowledge_hf exampleKB_hf (str ''water cycle'') 2)
   \<and> prefix (filter (\<lambda>c. score c = 3) (searchKnowledge_base exampleKB (str ''water cycle'') 2))
        (filter (\<lambda>c. score c = 3)
           (scored_base exampleKB (str ''water cycle'') (extractKeywords_base (str ''water cycle''))))"
proof -
  have e1: "scored_base exampleKB (str ''water cycle'') (extractKeywords_base (str ''water cycle''))
     = [withScore plantChunk 3, withScore waterChunk 16, withScore rockChunk 3]"
    by (simp add: eval_defs)
  have e2: "searchKnowledge_base exampleKB (str ''water cycle'') 2
     = [withScore waterChunk 16, withScore plantChunk 3]"
    by (simp add: eval_defs)
  have e3: "searchKnowledge_hf exampleKB_hf (str ''water cycle'') 2
     = [withScore (hfChunk waterChunk) 20, withScore (hfChunk plantChunk) 5]"
    by (simp add: eval_defs)
  note t = searchKnowledge_ranked [of exampleKB "str ''water cycle''" 2 exampleKB_hf]
  from e1 e2 e3 t show ?thesis
    unfolding list_all_iff by blast
qed

section \<open>Queries without keywords\<close>

lemma splitOn_all_sep:
  assumes "\<forall>c \<in> set s. sep c"
  shows "\<forall>p \<in> set (splitOn sep s). p = []"
proof (cases s)
  case Nil
  then show ?thesis by simp
next
  case (Cons c cs)
  with assms have c: "sep c" and d: "dropWhile sep cs = []"
    by auto
  show ?thesis
    unfolding Cons by (simp add: c d)
qed

lemma tokens_no_alnum:
  assumes "\<forall>c \<in> set q. \<not> list_ex isAlnum (lowerUnit c)"
  shows "\<forall>w \<in> set (tokens q). w = []"
proof -
  from assms have "\<forall>u \<in> set (toLowerCase q). \<not> isAlnum u"
    by (auto simp: toLowerCase_def list_ex_iff)
  then have "\<forall>u \<in> set (stripNonAlnum (toLowerCase q)). isSpace u"
    by (auto simp: stripNonAlnum_def isSpace_def)
  then show ?thesis
    unfolding tokens_def by (rule splitOn_all_sep)
qed

lemma extractKeywordsWith_none:
  assumes "\<forall>w \<in> set (tokens q). length w \<le> 2 \<or> w \<in> set stop"
  shows "extractKeywordsWith stop q = []"
  using assms by (auto simp: extractKeywordsWith_def filter_empty_conv)

lemma extractKeywordsWith_no_alnum:
  assumes "\<forall>c \<in> set q. \<not> list_ex isAlnum (lowerUnit c)"
  shows "extractKeywordsWith stop q = []"
proof (rule extractKeywordsWith_none)
  from tokens_no_alnum [OF assms] show "\<forall>w \<in> set (tokens q). length w \<le> 2 \<or> w \<in> set stop"
    by auto
qed

lemma searchKnowledge_base_no_keywords:
  "extractKeywords_base q = [] \<Longrightarrow> searchKnowledge_base kb q topK = []"
  by (simp add: searchKnowledge_base_def)

lemma searchKnowledge_hf_no_keywords:
  "extractKeywords_hf q = [] \<Longrightarrow> searchKnowledge_hf kbh q topK = []"
  by (simp add: searchKnowledge_hf_def)

text \<open>
  Claim C7. For every knowledge base and every \<open>topK\<close>, a query from which no keyword is
  extracted gets the empty sequence from \<open>searchKnowledge\<close>, in both variants. That is so
  for the empty query; for a query none of whose code units is a letter or a digit of
  \<^verbatim>\<open>[a-z0-9]\<close> after lower-casing (pure punctuation and white space); and for a query all of
  whose tokens are stop words or have at most two code units.
\<close>

theorem searchKnowledge_no_keywords:
  "(extractKeywords_base q = [] \<longrightarrow> searchKnowledge_base kb q topK = [])
   \<and> (extractKeywords_hf q = [] \<longrightarrow> searchKnowledge_hf kbh q topK = [])
   \<and> searchKnowledge_base kb [] topK = []
   \<and> searchKnowledge_hf kbh [] topK = []
   \<and> ((\<forall>c \<in> set q. \<not> list_ex isAlnum (lowerUnit c))
        \<longrightarrow> searchKnowledge_base kb q topK = [] \<and> searchKnowledge_hf kbh q topK = [])
   \<and> ((\<forall>w \<in> set (tokens q). length w \<le> 2 \<or> w \<in> set stopWords_base)
        \<longrightarrow> searchKnowledge_base kb q topK = [])
   \<and> ((\<forall>w \<in> set (tokens q). length w \<le> 2 \<or> w \<in> set stopWords_hf)
        \<longrightarrow> searchKnowledge_hf kbh q topK = [])"
proof -
  have empty_b: "searchKnowledge_base kb [] topK = []"
    by (rule searchKnowledge_base_no_keywords)
       (simp add: extractKeywords_base_def extractKeywordsWith_no_alnum)
  have empty_h: "searchKnowledge_hf kbh [] topK = []"
    by (rule searchKnowledge_hf_no_keywords)
       (simp add: extractKeywords_hf_def extractKeywordsWith_no_alnum)
  have punct: "searchKnowledge_base kb q topK = [] \<and> searchKnowledge_hf kbh q topK = []"
    if "\<forall>c \<in> set q. \<not> list_ex isAlnum (lowerUnit c)"
    using that
    by (simp add: searchKnowledge_base_no_keywords searchKnowledge_hf_no_keywords
          extractKeywords_base_def extractKeywords_hf_def extractKeywordsWith_no_alnum)
  have stop_b: "searchKnowledge_base kb q topK = []"
    if "\<forall>w \<in> set (tokens q). length w \<le> 2 \<or> w \<in> set stopWords_base"
    using that
    by (simp add: searchKnowledge_base_no_keywords extractKeywords_base_def
          extractKeywordsWith_none)
  have stop_h: "searchKnowledge_hf kbh q topK = []"
    if "\<forall>w \<in> set (tokens q). length w \<le> 2 \<or> w \<in> set stopWords_hf"
    using that
    by (simp add: searchKnowledge_hf_no_keywords extractKeywords_hf_def
          extractKeywordsWith_none)
  from empty_b empty_h punct stop_b stop_h show ?thesis
    by (simp add: searchKnowledge_base_no_keywords searchKnowledge_hf_no_keywords)
qed

text \<open>
  The theorem at the punctuation query \<^verbatim>\<open>?!\<close>, which meets every hypothesis, on the
  knowledge base of three entries; and the stop-word query \<^verbatim>\<open>What is it?\<close> beside it.
\<close>

theorem searchKnowledge_no_keywords_witness:
  "extractKeywords_base (str ''?!'') = []
   \<and> extractKeywords_hf (str ''?!'') = []
   \<and> list_all (\<lambda>c. \<not> list_ex isAlnum (lowerUnit c)) (str ''?!'')
   \<and> list_all (\<lambda>w. length w \<le> 2 \<or> w \<in> set stopWords_base) (tokens (str ''?!''))
   \<and> list_all (\<lambda>w. length w \<le> 2 \<or> w \<in> set stopWords_hf) (tokens (str ''?!''))
   \<and> searchKnowledge_base exampleKB (str ''?!'') 3 = []
   \<and> searchKnowledge_hf exampleKB_hf (str ''?!'') 3 = []
   \<and> tokens (str ''What is it?'') = [str ''what'', str ''is'', str ''it'', []]
   \<and> searchKnowledge_base exampleKB (str ''What is it?'') 3 = []
   \<and> searchKnowledge_hf exampleKB_hf (str ''What is it?'') 3 = []"
proof -
  have k1: "extractKeywords_base (str ''?!'') = []"
    by (simp add: eval_defs)
  have k2: "extractKeywords_hf (str ''?!'') = []"
    by (simp add: eval_defs)
  have p: "\<forall>c \<in> set (str ''?!''). \<not> list_ex isAlnum (lowerUnit c)"
    by (simp add: eval_defs)
  have s1: "\<forall>w \<in> set (tokens (str ''?!'')). length w \<le> 2 \<or> w \<in> set stopWords_base"
    by (simp add: eval_defs)
  have s2: "\<forall>w \<in> set (tokens (str ''?!'')). length w \<le> 2 \<or> w \<in> set stopWords_hf"
    by (simp add: eval_defs)
  have t0: "tokens (str ''What is it?'') = [str ''what'', str ''is'', str ''it'', []]"
    by (simp add: eval_defs)
  have s3: "\<forall>w \<in> set (tokens (str ''What is it?'')). length w \<le> 2 \<or> w \<in> set stopWords_base"
    by (simp add: eval_defs)
  have s4: "\<forall>w \<in> set (tokens (str ''What is it?'')). length w \<le> 2 \<or> w \<in> set stopWords_hf"
    by (simp add: eval_defs)
  note a = searchKnowledge_no_keywords [of "str ''?!''" exampleKB 3 exampleKB_hf]
  note b = searchKnowledge_no_keywords [of "str ''What is it?''" exampleKB 3 exampleKB_hf]
  from k1 k2 p s1 s2 t0 s3 s4 a b show ?thesis
    unfolding list_all_iff by blast
qed

section \<open>The score as keyword signal plus phrase bonus\<close>




lemma foldl_keywordStep_base:
  "foldl (keywordStep_base item clow q) a kws
     = a + sum_list (map (\<lambda>kw. (if kw \<in> set (keywords_fld item) then 2 else 0)
                              + (if str_includes clow kw then 1 else 0)) kws)
         + (if str_includes clow (toLowerCase q) then 5 * int (length kws) else 0)"
  by (induction kws arbitrary: a) (simp_all add: keywordStep_base_def)

lemma foldl_titleStep_base:
  "foldl (titleStep_base tlow) a kws
     = a + sum_list (map (\<lambda>kw. if str_includes tlow kw then 3 else 0) kws)"
  by (induction kws arbitrary: a) (simp_all add: titleStep_base_def)

lemma sum_list_map_add:
  "sum_list (map (\<lambda>x. f x + g x) xs) = sum_list (map f xs) + (sum_list (map g xs) :: int)"
  by (induction xs) simp_all

lemma score_base_parts:
  "score_base item q kws
     = keywordSignal_base item kws + (if phraseMatch item q then 5 * int (length kws) else 0)"
  by (simp add: score_base_def keywordSignal_base_def phraseMatch_def Let_def
        foldl_keywordStep_base foldl_titleStep_base sum_list_map_add)

lemma foldl_keywordStep_hf:
  "foldl (keywordStep_hf item clow tlow) a kws
     = a + sum_list (map (\<lambda>kw. (if (case keywords_fld item of None \<Rightarrow> False
                                                             | Some ks \<Rightarrow> kw \<in> set ks)
                                then 3 else 0)
                              + (if str_includes clow kw then 2 else 0)
                              + (if str_includes tlow kw then 4 else 0)) kws)"
  by (induction kws arbitrary: a) (simp_all add: keywordStep_hf_def)

lemma score_hf_parts:
  "score_hf item q kws
     = keywordSignal_hf item kws + (if phraseMatch item q then 10 else 0)"
  by (simp add: score_hf_def keywordSignal_hf_def phraseMatch_def Let_def foldl_keywordStep_hf)




text \<open>
  Claim C1. The claim wants the exact-phrase bonus added to an entry's score at most once,
  not once per keyword. \<open>searchKnowledge\<close> of \<^verbatim>\<open>chatbot.js\<close> tests the phrase inside the
  loop over the keywords. For the query \<^verbatim>\<open>water cycle\<close> (two keywords) and an entry whose
  content holds that phrase, the keywords earn 6 and the score is 16: the bonus of 5 is
  added twice. The assistant's \<open>searchKnowledge\<close> tests the phrase after the loop: there
  the keywords earn 10 and the score is 20, one bonus of 10.
\<close>

theorem searchKnowledge_base_phrase_bonus_per_keyword:
  "extractKeywords_base (str ''water cycle'') = [str ''water'', str ''cycle'']
   \<and> phraseMatch waterChunk (str ''water cycle'')
   \<and> keywordSignal_base waterChunk (extractKeywords_base (str ''water cycle'')) = 6
   \<and> score_base waterChunk (str ''water cycle'') (extractKeywords_base (str ''water cycle''))
       = 6 + 5 + 5
   \<and> keywordSignal_hf (hfChunk waterChunk) (extractKeywords_hf (str ''water cycle'')) = 10
   \<and> score_hf (hfChunk waterChunk) (str ''water cycle'') (extractKeywords_hf (str ''water cycle''))
       = 10 + 10"
  by (simp add: eval_defs)



section \<open>Monotonicity of the score\<close>

lemma sum_list_mset_mono:
  fixes f :: "'a \<Rightarrow> int"
  assumes "mset xs \<subseteq># mset ys" and "\<And>x. 0 \<le> f x"
  shows "sum_list (map f xs) \<le> sum_list (map f ys)"
proof -
  from assms(1) obtain C where C: "mset ys = mset xs + C"
    by (auto simp: mset_subset_eq_exists_conv)
  have "sum_list (map f ys) = sum_mset (mset (map f ys))"
    by (simp only: sum_mset_sum_list)
  also have "\<dots> = sum_mset (image_mset f (mset xs + C))"
    by (simp only: mset_map C)
  also have "\<dots> = sum_mset (mset (map f xs)) + sum_mset (image_mset f C)"
    by simp
  also have "sum_mset (mset (map f xs)) = sum_list (map f xs)"
    by (simp only: sum_mset_sum_list)
  finally have "sum_list (map f ys) = sum_list (map f xs) + sum_mset (image_mset f C)" .
  moreover have "0 \<le> sum_mset (image_mset f C)"
    by (induction C) (simp_all add: assms(2))
  ultimately show ?thesis
    by simp
qed

lemma keywordSignal_base_mono:
  assumes "mset kws1 \<subseteq># mset kws2"
  shows "keywordSignal_base item kws1 \<le> keywordSignal_base item kws2"
  unfolding keywordSignal_base_def by (rule sum_list_mset_mono [OF assms]) simp

lemma keywordSignal_hf_mono:
  assumes "mset kws1 \<subseteq># mset kws2"
  shows "keywordSignal_hf item kws1 \<le> keywordSignal_hf item kws2"
  unfolding keywordSignal_hf_def by (rule sum_list_mset_mono [OF assms]) simp

lemma length_mset_mono: "mset xs \<subseteq># mset ys \<Longrightarrow> length xs \<le> length ys"
  using size_mset_mono [of "mset xs" "mset ys"] by simp

text \<open>
  Claim C3, as stated, fails on the code. The keywords of \<^verbatim>\<open>water cycle evaporation\<close>
  include those of \<^verbatim>\<open>water cycle\<close>, the entry matches both keywords of the first query in
  its keyword list and in its content, and its score falls from 20 to 15 (from 16 to 9 in
  \<^verbatim>\<open>chatbot.js\<close>): the longer query is no substring of the content and loses the phrase
  bonus. And \<open>extractKeywords\<close> keeps repeated words, so \<^verbatim>\<open>water water water water\<close> has
  the keyword set of \<^verbatim>\<open>water\<close> and a higher score.
\<close>

theorem score_monotone_counterexample:
  "set (extractKeywords_hf (str ''water cycle''))
     \<subseteq> set (extractKeywords_hf (str ''water cycle evaporation''))
   \<and> set (extractKeywords_base (str ''water cycle''))
     \<subseteq> set (extractKeywords_base (str ''water cycle evaporation''))
   \<and> list_all (\<lambda>kw. kw \<in> set (keywords_fld waterChunk)
                    \<and> str_includes (toLowerCase (content waterChunk)) kw)
        (extractKeywords_hf (str ''water cycle''))
   \<and> score_hf (hfChunk waterChunk) (str ''water cycle evaporation'')
        (extractKeywords_hf (str ''water cycle evaporation''))
       < score_hf (hfChunk waterChunk) (str ''water cycle'')
           (extractKeywords_hf (str ''water cycle''))
   \<and> score_base waterChunk (str ''water cycle evaporation'')
        (extractKeywords_base (str ''water cycle evaporation''))
       < score_base waterChunk (str ''water cycle'')
           (extractKeywords_base (str ''water cycle''))
   \<and> set (extractKeywords_hf (str ''water water water water''))
     \<subseteq> set (extractKeywords_hf (str ''water''))
   \<and> score_hf (hfChunk plantChunk) (str ''water'') (extractKeywords_hf (str ''water''))
       < score_hf (hfChunk plantChunk) (str ''water water water water'')
           (extractKeywords_hf (str ''water water water water''))"
  by (simp add: eval_defs)

text \<open>
  Claim C3, amended. For every entry and any two queries: if every keyword occurs in the
  keyword list of the second query at least as often as in that of the first, and the
  entry earns the phrase bonus under the second query whenever it earns it under the
  first, then its score under the second query is not lower than under the first. This
  holds in both variants, whether or not the entry matched the first query's keywords.
\<close>

theorem score_monotone_amended:
  "(mset (extractKeywords_base q1) \<subseteq># mset (extractKeywords_base q2)
      \<and> (phraseMatch item q1 \<longrightarrow> phraseMatch item q2)
    \<longrightarrow> score_base item q1 (extractKeywords_base q1) \<le> score_base item q2 (extractKeywords_base q2))
   \<and> (mset (extractKeywords_hf q1) \<subseteq># mset (extractKeywords_hf q2)
      \<and> (phraseMatch itemh q1 \<longrightarrow> phraseMatch itemh q2)
    \<longrightarrow> score_hf itemh q1 (extractKeywords_hf q1) \<le> score_hf itemh q2 (extractKeywords_hf q2))"
proof (intro conjI impI)
  assume a: "mset (extractKeywords_base q1) \<subseteq># mset (extractKeywords_base q2)
      \<and> (phraseMatch item q1 \<longrightarrow> phraseMatch item q2)"
  then have s: "keywordSignal_base item (extractKeywords_base q1)
                  \<le> keywordSignal_base item (extractKeywords_base q2)"
    by (simp add: keywordSignal_base_mono)
  from a have l: "length (extractKeywords_base q1) \<le> length (extractKeywords_base q2)"
    by (simp add: length_mset_mono)
  from a s l show "score_base item q1 (extractKeywords_base q1)
                     \<le> score_base item q2 (extractKeywords_base q2)"
    by (auto simp: score_base_parts)
next
  assume a: "mset (extractKeywords_hf q1) \<subseteq># mset (extractKeywords_hf q2)
      \<and> (phraseMatch itemh q1 \<longrightarrow> phraseMatch itemh q2)"
  then have s: "keywordSignal_hf itemh (extractKeywords_hf q1)
                  \<le> keywordSignal_hf itemh (extractKeywords_hf q2)"
    by (simp add: keywordSignal_hf_mono)
  from a s show "score_hf itemh q1 (extractKeywords_hf q1)
                     \<le> score_hf itemh q2 (extractKeywords_hf q2)"
    by (auto simp: score_hf_parts)
qed

theorem score_monotone_amended_witness:
  "mset (extractKeywords_base (str ''water'')) \<subseteq># mset (extractKeywords_base (str ''the water cycle''))
   \<and> mset (extractKeywords_hf (str ''water'')) \<subseteq># mset (extractKeywords_hf (str ''the water cycle''))
   \<and> phraseMatch waterChunk (str ''water'')
   \<and> phraseMatch waterChunk (str ''the water cycle'')
   \<and> score_base waterChunk (str ''water'') (extractKeywords_base (str ''water'')) = 8
   \<and> score_base waterChunk (str ''the water cycle'') (extractKeywords_base (str ''the water cycle'')) = 16
   \<and> score_base waterChunk (str ''water'') (extractKeywords_base (str ''water''))
       \<le> score_base waterChunk (str ''the water cycle'') (extractKeywords_base (str ''the water cycle''))
   \<and> score_hf (hfChunk waterChunk) (str ''water'') (extractKeywords_hf (str ''water''))
       \<le> score_hf (hfChunk waterChunk) (str ''the water cycle'') (extractKeywords_hf (str ''the water cycle''))"
proof -
  have k: "extractKeywords_base (str ''water'') = [str ''water'']"
          "extractKeywords_base (str ''the water cycle'') = [str ''water'', str ''cycle'']"
          "extractKeywords_hf (str ''water'') = [str ''water'']"
          "extractKeywords_hf (str ''the water cycle'') = [str ''water'', str ''cycle'']"
    by (simp_all add: eval_defs)
  have m: "mset (extractKeywords_base (str ''water'')) \<subseteq># mset (extractKeywords_base (str ''the water cycle''))"
          "mset (extractKeywords_hf (str ''water'')) \<subseteq># mset (extractKeywords_hf (str ''the water cycle''))"
    unfolding k by simp_all
  have p: "phraseMatch waterChunk (str ''water'')" "phraseMatch waterChunk (str ''the water cycle'')"
          "phraseMatch (hfChunk waterChunk) (str ''the water cycle'')"
    by (simp_all add: eval_defs)
  have v: "score_base waterChunk (str ''water'') (extractKeywords_base (str ''water'')) = 8"
          "score_base waterChunk (str ''the water cycle'') (extractKeywords_base (str ''the water cycle'')) = 16"
    by (simp_all add: eval_defs)
  note t = score_monotone_amended
    [of "str ''water''" "str ''the water cycle''" waterChunk "hfChunk waterChunk"]
  from m p v t show ?thesis
    by simp
qed

section \<open>Keywords as a sequence\<close>

lemma splitOn_not_Nil: "splitOn sep s \<noteq> []"
  by (cases s) (simp_all split: list.split)

lemma splitOn_Cons_nonsep:
  "\<not> sep x \<Longrightarrow> splitOn sep (x # ys) = (x # hd (splitOn sep ys)) # tl (splitOn sep ys)"
  using splitOn_not_Nil [of sep ys] by (cases "splitOn sep ys") simp_all

lemma splitOn_no_sep: "\<forall>c \<in> set a. \<not> sep c \<Longrightarrow> splitOn sep a = [a]"
  by (induction a) (simp_all add: splitOn_Cons_nonsep del: splitOn.simps(2))

lemma filter_not_dropWhile: "filter (\<lambda>c. \<not> P c) (dropWhile P xs) = filter (\<lambda>c. \<not> P c) xs"
  by (induction xs) simp_all

lemma concat_splitOn: "concat (splitOn sep s) = filter (\<lambda>c. \<not> sep c) s"
proof (induction sep s rule: splitOn.induct)
  case (1 sep)
  show ?case by simp
next
  case (2 sep c cs)
  show ?case
  proof (cases "sep c")
    case True
    with 2 show ?thesis
      by (simp add: filter_not_dropWhile)
  next
    case False
    have "concat (splitOn sep (c # cs)) = c # concat (hd (splitOn sep cs) # tl (splitOn sep cs))"
      using False by (simp add: splitOn_Cons_nonsep del: splitOn.simps)
    also have "hd (splitOn sep cs) # tl (splitOn sep cs) = splitOn sep cs"
      by (simp add: splitOn_not_Nil)
    finally show ?thesis
      using False 2 by simp
  qed
qed

lemma set_join_ge: "s \<in> set g \<Longrightarrow> set s \<subseteq> set (join sep g)"
  by (induction sep g rule: join.induct) auto

lemma filter_splitOn_dropWhile:
  assumes "\<not> P []"
  shows "filter P (splitOn sep (dropWhile sep s)) = filter P (splitOn sep s)"
proof (cases s)
  case Nil
  then show ?thesis by simp
next
  case (Cons x xs)
  then show ?thesis using assms by simp
qed

lemma splitOn_append_sep:
  assumes "sep c" and "\<not> P []"
  shows "hd (splitOn sep (a @ c # b)) = hd (splitOn sep a)
         \<and> filter P (tl (splitOn sep (a @ c # b)))
             = filter P (tl (splitOn sep a)) @ filter P (splitOn sep b)"
proof (induction a)
  case Nil
  from assms show ?case
    by (simp add: filter_splitOn_dropWhile)
next
  case (Cons x xs)
  show ?case
  proof (cases "sep x")
    case True
    have "filter P (splitOn sep (dropWhile sep (xs @ c # b)))
            = filter P (splitOn sep (xs @ c # b))"
      using assms(2) by (rule filter_splitOn_dropWhile)
    also have "\<dots> = filter P (hd (splitOn sep (xs @ c # b)) # tl (splitOn sep (xs @ c # b)))"
      by (simp add: splitOn_not_Nil)
    also have "\<dots> = filter P (hd (splitOn sep xs) # tl (splitOn sep xs)) @ filter P (splitOn sep b)"
      using Cons.IH by simp
    also have "hd (splitOn sep xs) # tl (splitOn sep xs) = splitOn sep xs"
      by (simp add: splitOn_not_Nil)
    also have "filter P (splitOn sep xs) = filter P (splitOn sep (dropWhile sep xs))"
      using assms(2) by (simp add: filter_splitOn_dropWhile)
    finally show ?thesis
      using True by simp
  next
    case False
    then show ?thesis
      using Cons.IH by (simp add: splitOn_Cons_nonsep del: splitOn.simps)
  qed
qed

lemma filter_splitOn_append_sep:
  assumes "sep c" and "\<not> P []"
  shows "filter P (splitOn sep (a @ c # b)) = filter P (splitOn sep a) @ filter P (splitOn sep b)"
proof -
  have "filter P (splitOn sep (a @ c # b))
          = filter P (hd (splitOn sep (a @ c # b)) # tl (splitOn sep (a @ c # b)))"
    by (simp add: splitOn_not_Nil)
  also have "\<dots> = filter P (hd (splitOn sep a) # tl (splitOn sep a)) @ filter P (splitOn sep b)"
    using splitOn_append_sep [of sep c P a b] assms by simp
  also have "hd (splitOn sep a) # tl (splitOn sep a) = splitOn sep a"
    by (simp add: splitOn_not_Nil)
  finally show ?thesis .
qed

lemma tokens_append_space:
  "tokens (a @ 32 # b) = splitOn isSpace (stripNonAlnum (toLowerCase a) @ 32 # stripNonAlnum (toLowerCase b))"
  by (simp add: tokens_def toLowerCase_def stripNonAlnum_def lowerUnit_def isSpace_def)

lemma extractKeywordsWith_append_space:
  "extractKeywordsWith stop (a @ 32 # b) = extractKeywordsWith stop a @ extractKeywordsWith stop b"
proof -
  have s: "isSpace 32"
    by (simp add: isSpace_def)
  show ?thesis
    unfolding extractKeywordsWith_def tokens_append_space
    using filter_splitOn_append_sep
            [of isSpace 32 "\<lambda>word. length word > 2 \<and> word \<notin> set stop"
               "stripNonAlnum (toLowerCase a)" "stripNonAlnum (toLowerCase b)"] s
    by (simp add: tokens_def)
qed

lemma extractKeywordsWith_Nil: "extractKeywordsWith stop [] = []"
  by (simp add: extractKeywordsWith_def tokens_def toLowerCase_def stripNonAlnum_def)

lemma lowerUnit_word: "isWordUnit c \<Longrightarrow> \<exists>u. lowerUnit c = [u] \<and> isAlnum u"
  by (auto simp: isWordUnit_def lowerUnit_def isAlnum_def)

lemma toLowerCase_word: "\<forall>c \<in> set w. isWordUnit c \<Longrightarrow> \<forall>u \<in> set (toLowerCase w). isAlnum u"
  using lowerUnit_word by (fastforce simp: toLowerCase_def)

lemma isAlnum_not_space: "isAlnum c \<Longrightarrow> \<not> isSpace c"
  by (auto simp: isAlnum_def isSpace_def)

lemma tokens_word:
  assumes "\<forall>c \<in> set w. isWordUnit c"
  shows "tokens w = [toLowerCase w]"
proof -
  from assms have a: "\<forall>u \<in> set (toLowerCase w). isAlnum u"
    by (rule toLowerCase_word)
  then have "stripNonAlnum (toLowerCase w) = toLowerCase w"
    by (simp add: stripNonAlnum_def map_idI)
  moreover from a have "\<forall>u \<in> set (toLowerCase w). \<not> isSpace u"
    by (auto dest: isAlnum_not_space)
  ultimately show ?thesis
    by (simp add: tokens_def splitOn_no_sep)
qed

lemma extractKeywordsWith_word:
  assumes "\<forall>c \<in> set w. isWordUnit c"
  shows "extractKeywordsWith stop w
           = filter (\<lambda>word. length word > 2 \<and> word \<notin> set stop) [toLowerCase w]"
  by (simp add: extractKeywordsWith_def tokens_word [OF assms])

lemma lowerUnit_separator:
  assumes "\<not> list_ex isAlnum (lowerUnit c)"
  shows "lowerUnit c = [c] \<and> \<not> isAlnum c"
  using assms by (auto simp: lowerUnit_def isAlnum_def split: if_splits)

lemma tokens_append_separator:
  assumes "\<not> list_ex isAlnum (lowerUnit c)"
  shows "\<exists>d. isSpace d \<and> tokens (a @ c # b)
           = splitOn isSpace (stripNonAlnum (toLowerCase a) @ d # stripNonAlnum (toLowerCase b))"
proof -
  from lowerUnit_separator [OF assms] have l: "lowerUnit c = [c]" and n: "\<not> isAlnum c"
    by simp_all
  let ?d = "if isSpace c then c else 32"
  have "isSpace ?d"
    by (simp add: isSpace_def)
  moreover have "tokens (a @ c # b)
           = splitOn isSpace (stripNonAlnum (toLowerCase a) @ ?d # stripNonAlnum (toLowerCase b))"
    using n by (simp add: tokens_def toLowerCase_def stripNonAlnum_def l)
  ultimately show ?thesis
    by blast
qed

lemma extractKeywordsWith_append_separator:
  assumes "\<not> list_ex isAlnum (lowerUnit c)"
  shows "extractKeywordsWith stop (a @ c # b)
           = extractKeywordsWith stop a @ extractKeywordsWith stop b"
proof -
  from tokens_append_separator [OF assms, of a b] obtain d where d: "isSpace d"
    and t: "tokens (a @ c # b)
           = splitOn isSpace (stripNonAlnum (toLowerCase a) @ d # stripNonAlnum (toLowerCase b))"
    by blast
  show ?thesis
    unfolding extractKeywordsWith_def t
    using filter_splitOn_append_sep
            [of isSpace d "\<lambda>word. length word > 2 \<and> word \<notin> set stop"
               "stripNonAlnum (toLowerCase a)" "stripNonAlnum (toLowerCase b)"] d
    by (simp add: tokens_def)
qed

lemma space_separator: "\<not> list_ex isAlnum (lowerUnit 32)"
  by (simp add: lowerUnit_def isAlnum_def)

lemma extractKeywordsWith_words:
  assumes "\<forall>w \<in> set ws. \<forall>c \<in> set w. isWordUnit c"
  shows "extractKeywordsWith stop (join [32] ws)
           = filter (\<lambda>word. length word > 2 \<and> word \<notin> set stop) (map toLowerCase ws)"
  using assms
proof (induction "[32::nat]" ws rule: join.induct)
  case 1
  show ?case
    by (simp add: extractKeywordsWith_Nil)
next
  case (2 p)
  then show ?case
    by (simp add: extractKeywordsWith_word)
next
  case (3 p q ps)
  have "extractKeywordsWith stop (join [32] (p # q # ps))
          = extractKeywordsWith stop p @ extractKeywordsWith stop (join [32] (q # ps))"
    using extractKeywordsWith_append_separator [OF space_separator, of stop p "join [32] (q # ps)"]
    by simp
  with 3 show ?case
    by (simp add: extractKeywordsWith_word)
qed

lemma count_list_filter:
  "count_list (filter P xs) x = (if P x then count_list xs x else 0)"
  by (induction xs) auto

text \<open>
  Claim C8, as stated, fails on the code: \<open>extractKeywords\<close> returns the array that
  \<^verbatim>\<open>filter\<close> gives, and a content word that occurs twice in the text occurs twice in it.
\<close>

theorem extractKeywords_duplicates_counterexample:
  "extractKeywords_base (str ''Water, water!'') = [str ''water'', str ''water'']
   \<and> extractKeywords_hf (str ''Water, water!'') = [str ''water'', str ''water'']
   \<and> \<not> distinct (extractKeywords_base (str ''Water, water!''))
   \<and> \<not> distinct (extractKeywords_hf (str ''Water, water!''))"
  by (simp add: eval_defs)

text \<open>
  Claim C8, amended. \<open>extractKeywords\<close> returns a sequence of keywords in the order of
  the text, with one entry for every occurrence of a content word. For a text of words
  (letters and digits of Basic Latin) joined by single spaces it returns the lower-cased
  words that are longer than two code units and no stop words, each as often as it occurs.
  For any two texts joined by a code unit that is no letter or digit, it returns the
  keywords of the first followed by the keywords of the second. On the empty text it
  returns the empty sequence. Both variants.
\<close>

theorem extractKeywords_sequence:
  "extractKeywords_base [] = []
   \<and> extractKeywords_hf [] = []
   \<and> (\<not> list_ex isAlnum (lowerUnit c)
        \<longrightarrow> extractKeywords_base (a @ c # b) = extractKeywords_base a @ extractKeywords_base b
          \<and> extractKeywords_hf (a @ c # b) = extractKeywords_hf a @ extractKeywords_hf b)
   \<and> ((\<forall>w \<in> set ws. \<forall>u \<in> set w. isWordUnit u)
        \<longrightarrow> extractKeywords_base (join [32] ws)
              = filter (\<lambda>word. length word > 2 \<and> word \<notin> set stopWords_base) (map toLowerCase ws)
          \<and> extractKeywords_hf (join [32] ws)
              = filter (\<lambda>word. length word > 2 \<and> word \<notin> set stopWords_hf) (map toLowerCase ws)
          \<and> (\<forall>k. length k > 2 \<and> k \<notin> set stopWords_base
                \<longrightarrow> count_list (extractKeywords_base (join [32] ws)) k
                      = count_list (map toLowerCase ws) k)
          \<and> (\<forall>k. length k > 2 \<and> k \<notin> set stopWords_hf
                \<longrightarrow> count_list (extractKeywords_hf (join [32] ws)) k
                      = count_list (map toLowerCase ws) k))"
  by (simp add: extractKeywords_base_def extractKeywords_hf_def extractKeywordsWith_Nil
        extractKeywordsWith_append_separator extractKeywordsWith_words count_list_filter)

text \<open>
  The theorem at the text \<^verbatim>\<open>Water is water the H2O\<close>, whose content word \<^verbatim>\<open>water\<close> occurs
  twice and is returned twice, and at \<^verbatim>\<open>Water, water!\<close> cut at its comma.
\<close>

theorem extractKeywords_sequence_witness:
  "join [32] [str ''Water'', str ''is'', str ''water'', str ''the'', str ''H2O'']
     = str ''Water is water the H2O''
   \<and> extractKeywords_base (str ''Water is water the H2O'')
       = [str ''water'', str ''water'', str ''h2o'']
   \<and> extractKeywords_hf (str ''Water is water the H2O'')
       = [str ''water'', str ''water'', str ''h2o'']
   \<and> count_list (extractKeywords_base (str ''Water is water the H2O'')) (str ''water'') = 2
   \<and> count_list (extractKeywords_hf (str ''Water is water the H2O'')) (str ''water'') = 2
   \<and> extractKeywords_base (str ''Water, water!'')
       = extractKeywords_base (str ''Water'') @ extractKeywords_base (str '' water!'')"
proof -
  let ?ws = "[str ''Water'', str ''is'', str ''water'', str ''the'', str ''H2O'']"
  have j: "join [32] ?ws = str ''Water is water the H2O''"
    by (simp add: str_def)
  have w: "\<forall>w \<in> set ?ws. \<forall>u \<in> set w. isWordUnit u"
    by (simp add: isWordUnit_def isAlnum_def str_def)
  have m: "map toLowerCase ?ws = [str ''water'', str ''is'', str ''water'', str ''the'', str ''h2o'']"
    by (simp add: toLowerCase_def lowerUnit_def str_def)
  have kb: "length (str ''water'') > 2 \<and> str ''water'' \<notin> set stopWords_base"
    by (simp add: stopWords_base_def str_def)
  have kh: "length (str ''water'') > 2 \<and> str ''water'' \<notin> set stopWords_hf"
    by (simp add: stopWords_hf_def str_def)
  have fb: "filter (\<lambda>word. length word > 2 \<and> word \<notin> set stopWords_base)
              [str ''water'', str ''is'', str ''water'', str ''the'', str ''h2o'']
            = [str ''water'', str ''water'', str ''h2o'']"
    by (simp add: stopWords_base_def str_def)
  have fh: "filter (\<lambda>word. length word > 2 \<and> word \<notin> set stopWords_hf)
              [str ''water'', str ''is'', str ''water'', str ''the'', str ''h2o'']
            = [str ''water'', str ''water'', str ''h2o'']"
    by (simp add: stopWords_hf_def str_def)
  have c: "count_list [str ''water'', str ''is'', str ''water'', str ''the'', str ''h2o''] (str ''water'') = 2"
    by (simp add: str_def)
  have sep: "\<not> list_ex isAlnum (lowerUnit 44)"
    by (simp add: lowerUnit_def isAlnum_def)
  have e: "str ''Water, water!'' = str ''Water'' @ 44 # str '' water!''"
    by (simp add: str_def)
  note t = extractKeywords_sequence [of 44 "str ''Water''" "str '' water!''" ?ws]
  from t w have r: "extractKeywords_base (join [32] ?ws)
              = filter (\<lambda>word. length word > 2 \<and> word \<notin> set stopWords_base) (map toLowerCase ?ws)"
    "extractKeywords_hf (join [32] ?ws)
              = filter (\<lambda>word. length word > 2 \<and> word \<notin> set stopWords_hf) (map toLowerCase ?ws)"
    "count_list (extractKeywords_base (join [32] ?ws)) (str ''water'')
                      = count_list (map toLowerCase ?ws) (str ''water'')"
    "count_list (extractKeywords_hf (join [32] ?ws)) (str ''water'')
                      = count_list (map toLowerCase ?ws) (str ''water'')"
    using kb kh by blast+
  from t sep have a: "extractKeywords_base (str ''Water'' @ 44 # str '' water!'')
       = extractKeywords_base (str ''Water'') @ extractKeywords_base (str '' water!'')"
    by blast
  from r a show ?thesis
    unfolding j m fb fh c e by simp
qed
section \<open>When an answer is returned\<close>

lemma trim_eq_Nil: "trim w = [] \<longleftrightarrow> (\<forall>c \<in> set w. isSpace c)"
proof
  assume "trim w = []"
  then have "\<forall>c \<in> set (dropWhile isSpace w). isSpace c"
    by (simp add: trim_def dropWhile_eq_Nil_conv)
  moreover have "dropWhile isSpace w \<noteq> [] \<Longrightarrow> \<not> isSpace (hd (dropWhile isSpace w))"
    by (rule hd_dropWhile)
  ultimately have "dropWhile isSpace w = []"
    by (cases "dropWhile isSpace w") auto
  then show "\<forall>c \<in> set w. isSpace c"
    by (simp add: dropWhile_eq_Nil_conv)
next
  assume "\<forall>c \<in> set w. isSpace c"
  then have d: "dropWhile isSpace w = []"
    by (simp add: dropWhile_eq_Nil_conv)
  show "trim w = []"
    unfolding trim_def d by simp
qed






























text \<open>
  Outside the amended claim: \<open>generateAnswer\<close> of \<^verbatim>\<open>chatbot.js\<close> has no guard like the
  assistant's. On a chunk that the search found and that has no sentence longer than 10
  code units, its answer is the full stop alone.
\<close>

lemma generateAnswer_base_dot:
  "sentences_base (content tinyChunk) = []
   \<and> generateAnswer_base (str ''rocks'') (searchKnowledge_base [tinyChunk] (str ''rocks'') 3)
       = Some \<lparr>answer_b = str ''.'', source_b = str ''Geography'', category_b = str ''textbooks''\<rparr>"
proof -
  have s: "searchKnowledge_base [tinyChunk] (str ''rocks'') 3 = [withScore tinyChunk 8]"
    by (simp add: tinyChunk_def eval_defs)
  have n: "sentences_base (content tinyChunk) = []"
    by (simp add: sentences_base_def tinyChunk_def eval_defs)
  have n': "sentences_base (content (withScore tinyChunk 8)) = []"
    using n by (simp add: withScore_def)
  have r: "relevant_base (str ''rocks'') [] = []"
    by (simp add: relevant_base_def)
  show ?thesis
    unfolding s using n
    by (simp add: generateAnswer_base_def n' r) (simp add: endDot_def tinyChunk_def eval_defs)
qed
section \<open>Remote search results and the local fallback\<close>

text \<open>
  Where \<open>semanticSearch\<close> does fall back: a rejected request, a response that is not
  \<^verbatim>\<open>ok\<close>, a body that does not parse, a parsed body that is \<^verbatim>\<open>null\<close>, a primitive or an
  array, an object whose \<^verbatim>\<open>success\<close> or \<^verbatim>\<open>results\<close> is absent or falsy, and an empty
  \<^verbatim>\<open>results\<close> array. A non-empty \<^verbatim>\<open>results\<close> array is returned as it is.
\<close>

lemma semanticSearch_no_response:
  "semanticSearch np (Inl e) kb q k = Local (searchKnowledge_hf kb q k)"
  "semanticSearch np (Inr (Response False body)) kb q k = Local (searchKnowledge_hf kb q k)"
  "semanticSearch np (Inr (Response True (Inl e))) kb q k = Local (searchKnowledge_hf kb q k)"
  by (simp_all add: semanticSearch_def tryRemote_def)

lemma semanticSearch_no_object:
  "semanticSearch np (Inr (Response True (Inr JNull))) kb q k = Local (searchKnowledge_hf kb q k)"
  "semanticSearch np (Inr (Response True (Inr (JBool b)))) kb q k = Local (searchKnowledge_hf kb q k)"
  "semanticSearch np (Inr (Response True (Inr (JNum n)))) kb q k = Local (searchKnowledge_hf kb q k)"
  "semanticSearch np (Inr (Response True (Inr (JStr s)))) kb q k = Local (searchKnowledge_hf kb q k)"
  "semanticSearch np (Inr (Response True (Inr (JArr xs)))) kb q k = Local (searchKnowledge_hf kb q k)"
  by (simp_all add: semanticSearch_def tryRemote_def truthyProp_def str_def)

lemma semanticSearch_object:
  "semanticSearch np (Inr (Response True (Inr (JObj kvs)))) kb q k =
     (if truthyProp (map_of (rev kvs) (str ''success''))
         \<and> truthyProp (map_of (rev kvs) (str ''results''))
         \<and> (case readProp (the (map_of (rev kvs) (str ''results''))) (str ''length'') of
               Inl e \<Rightarrow> False | Inr len \<Rightarrow> greaterZero np len)
      then Remote (the (map_of (rev kvs) (str ''results'')))
      else Local (searchKnowledge_hf kb q k))"
  by (auto simp: semanticSearch_def tryRemote_def truthyProp_def split: option.splits sum.splits)

lemma semanticSearch_array:
  assumes "truthyProp (map_of (rev kvs) (str ''success''))"
      and "map_of (rev kvs) (str ''results'') = Some (JArr rs)"
  shows "semanticSearch np (Inr (Response True (Inr (JObj kvs)))) kb q k =
           (if rs \<noteq> [] then Remote (JArr rs) else Local (searchKnowledge_hf kb q k))"
  using assms
  by (simp add: semanticSearch_object truthyProp_def greaterZero_def)

lemma semanticSearch_string:
  assumes "truthyProp (map_of (rev kvs) (str ''success''))"
      and "map_of (rev kvs) (str ''results'') = Some (JStr s)" and "s \<noteq> []"
  shows "semanticSearch np (Inr (Response True (Inr (JObj kvs)))) kb q k = Remote (JStr s)"
  using assms
  by (simp add: semanticSearch_object truthyProp_def greaterZero_def)

text \<open>
  Claim C9. The claim wants the local search on every failure, a malformed response among
  them. \<open>semanticSearch\<close> tests \<^verbatim>\<open>data.results\<close> for being truthy and for a \<^verbatim>\<open>length\<close>
  above zero, not for being an array: for the body
  \<^verbatim>\<open>{"success": true, "results": "oops"}\<close> it returns the string \<^verbatim>\<open>oops\<close>, where the local
  search for \<^verbatim>\<open>water cycle\<close> has three results. An empty array and a body that does not
  parse give the local results.
\<close>

theorem semanticSearch_malformed_results:
  "searchKnowledge_hf exampleKB_hf (str ''water cycle'') 5
     = [withScore (hfChunk waterChunk) 20, withScore (hfChunk plantChunk) 5,
        withScore (hfChunk rockChunk) 5]
   \<and> semanticSearch np
        (Inr (Response True
           (Inr (JObj [(str ''success'', JBool True), (str ''results'', JStr (str ''oops''))]))))
        exampleKB_hf (str ''water cycle'') 5
       = Remote (JStr (str ''oops''))
   \<and> semanticSearch np
        (Inr (Response True
           (Inr (JObj [(str ''success'', JBool True), (str ''results'', JArr [])]))))
        exampleKB_hf (str ''water cycle'') 5
       = Local [withScore (hfChunk waterChunk) 20, withScore (hfChunk plantChunk) 5,
                withScore (hfChunk rockChunk) 5]
   \<and> semanticSearch np (Inr (Response True (Inl SyntaxError))) exampleKB_hf (str ''water cycle'') 5
       = Local [withScore (hfChunk waterChunk) 20, withScore (hfChunk plantChunk) 5,
                withScore (hfChunk rockChunk) 5]"
proof -
  have l: "searchKnowledge_hf exampleKB_hf (str ''water cycle'') 5
     = [withScore (hfChunk waterChunk) 20, withScore (hfChunk plantChunk) 5,
        withScore (hfChunk rockChunk) 5]"
    by (simp add: eval_defs)
  have s: "semanticSearch np
        (Inr (Response True
           (Inr (JObj [(str ''success'', JBool True), (str ''results'', JStr (str ''oops''))]))))
        exampleKB_hf (str ''water cycle'') 5
       = Remote (JStr (str ''oops''))"
    by (simp add: semanticSearch_def tryRemote_def truthyProp_def greaterZero_def str_def)
  have e: "semanticSearch np
        (Inr (Response True
           (Inr (JObj [(str ''success'', JBool True), (str ''results'', JArr [])]))))
        exampleKB_hf (str ''water cycle'') 5
       = Local (searchKnowledge_hf exampleKB_hf (str ''water cycle'') 5)"
    by (simp add: semanticSearch_def tryRemote_def truthyProp_def greaterZero_def str_def)
  have y: "semanticSearch np (Inr (Response True (Inl SyntaxError))) exampleKB_hf (str ''water cycle'') 5
       = Local (searchKnowledge_hf exampleKB_hf (str ''water cycle'') 5)"
    by (simp add: semanticSearch_def tryRemote_def)
  from l s e y show ?thesis
    by simp
qed
section \<open>Chunks and the sentence sequence\<close>

lemma trim_space_Cons: "trim (32 # x) = trim x"
  by (simp add: trim_def isSpace_def)

lemma join_snoc: "g \<noteq> [] \<Longrightarrow> join sep (g @ [s]) = join sep g @ sep @ s"
  by (induction sep g rule: join.induct) simp_all

lemma bufferOf_trim: "bufferOf cur g \<Longrightarrow> trim cur = trim (join [32] g)"
  by (auto simp: bufferOf_def trim_space_Cons)

lemma bufferOf_append: "bufferOf cur g \<Longrightarrow> bufferOf (cur @ 32 # s) (g @ [s])"
  by (auto simp: bufferOf_def join_snoc)

lemma bufferOf_start: "bufferOf s [s]"
  by (simp add: bufferOf_def)

lemma chunkLoop_groups:
  assumes "bufferOf cur g"
  shows "\<exists>gs g' cur'.
           chunkLoop n chunks cur ss = (chunks @ map (\<lambda>g. trim (join [32] g)) gs, cur')
           \<and> concat gs @ g' = g @ ss \<and> bufferOf cur' g' \<and> [] \<notin> set gs"
  using assms
proof (induction ss arbitrary: chunks cur g)
  case Nil
  then have "chunkLoop n chunks cur [] = (chunks @ map (\<lambda>g. trim (join [32] g)) [], cur)
             \<and> concat [] @ g = g @ [] \<and> bufferOf cur g \<and> [] \<notin> set []"
    by simp
  then show ?case
    by blast
next
  case (Cons s ss)
  show ?case
  proof (cases "length (cur @ s) > n \<and> length cur > 0")
    case True
    with Cons.prems have g: "g \<noteq> []"
      by (auto simp: bufferOf_def)
    from Cons.IH [OF bufferOf_start, of "chunks @ [trim cur]" s]
    obtain gs g' cur' where
      l: "chunkLoop n (chunks @ [trim cur]) s ss
            = ((chunks @ [trim cur]) @ map (\<lambda>g. trim (join [32] g)) gs, cur')"
      and c: "concat gs @ g' = [s] @ ss" and b: "bufferOf cur' g'" and e: "[] \<notin> set gs"
      by blast
    have "chunkLoop n chunks cur (s # ss)
            = (chunks @ map (\<lambda>g. trim (join [32] g)) (g # gs), cur')"
      using True l bufferOf_trim [OF Cons.prems] by simp
    moreover have "concat (g # gs) @ g' = g @ s # ss"
      using c by simp
    moreover have "[] \<notin> set (g # gs)"
      using g e by simp
    ultimately show ?thesis
      using b by blast
  next
    case False
    from Cons.IH [OF bufferOf_append [OF Cons.prems], of chunks s]
    obtain gs g' cur' where
      l: "chunkLoop n chunks (cur @ 32 # s) ss
            = (chunks @ map (\<lambda>g. trim (join [32] g)) gs, cur')"
      and c: "concat gs @ g' = (g @ [s]) @ ss" and b: "bufferOf cur' g'" and e: "[] \<notin> set gs"
      by blast
    have "chunkLoop n chunks cur (s # ss) = (chunks @ map (\<lambda>g. trim (join [32] g)) gs, cur')"
      using False l by auto
    moreover have "concat gs @ g' = g @ s # ss"
      using c by simp
    ultimately show ?thesis
      using b e by blast
  qed
qed

lemma splitWith_groups:
  "\<exists>gs g'. concat gs @ g' = splitOn sep t \<and> [] \<notin> set gs
     \<and> splitWith sep t n
         = map (\<lambda>g. trim (join [32] g)) gs
           @ (if trim (join [32] g') = [] then [] else [trim (join [32] g')])"
proof -
  have "bufferOf [] []"
    by (simp add: bufferOf_def)
  from chunkLoop_groups [OF this, of n "[]" "splitOn sep t"]
  obtain gs g' cur' where
    l: "chunkLoop n [] [] (splitOn sep t) = (map (\<lambda>g. trim (join [32] g)) gs, cur')"
    and c: "concat gs @ g' = splitOn sep t" and b: "bufferOf cur' g'" and e: "[] \<notin> set gs"
    by auto
  have "splitWith sep t n
         = map (\<lambda>g. trim (join [32] g)) gs
           @ (if trim (join [32] g') = [] then [] else [trim (join [32] g')])"
    by (simp add: splitWith_def l bufferOf_trim [OF b])
  with c e show ?thesis
    by blast
qed

lemma set_join: "set (join sep g) \<subseteq> \<Union> (set ` set g) \<union> set sep"
  by (induction sep g rule: join.induct) auto

lemma blank_group: "trim (join [32] g) = [] \<longleftrightarrow> (\<forall>s \<in> set g. trim s = [])"
proof
  assume "trim (join [32] g) = []"
  then show "\<forall>s \<in> set g. trim s = []"
    using set_join_ge [of _ g "[32]"] by (fastforce simp: trim_eq_Nil)
next
  assume a: "\<forall>s \<in> set g. trim s = []"
  have "isSpace 32"
    by (simp add: isSpace_def)
  with a show "trim (join [32] g) = []"
    using set_join [of "[32]" g] by (fastforce simp: trim_eq_Nil)
qed

lemma squash_trim: "squash (trim s) = squash s"
proof -
  have "filter (\<lambda>c. \<not> isSpace c) (rev (dropWhile isSpace (rev (dropWhile isSpace s))))
          = rev (filter (\<lambda>c. \<not> isSpace c) (dropWhile isSpace (rev (dropWhile isSpace s))))"
    by (simp only: rev_filter)
  also have "\<dots> = rev (filter (\<lambda>c. \<not> isSpace c) (rev (dropWhile isSpace s)))"
    by (simp only: filter_not_dropWhile)
  also have "\<dots> = filter (\<lambda>c. \<not> isSpace c) (dropWhile isSpace s)"
    by (simp add: rev_filter)
  also have "\<dots> = filter (\<lambda>c. \<not> isSpace c) s"
    by (simp only: filter_not_dropWhile)
  finally show ?thesis
    by (simp add: squash_def trim_def)
qed

lemma squash_join: "squash (join [32] g) = concat (map squash g)"
  by (induction "[32::nat]" g rule: join.induct) (simp_all add: squash_def isSpace_def)

lemma squash_Nil_iff: "trim s = [] \<Longrightarrow> squash s = []"
  by (simp add: trim_eq_Nil squash_def filter_empty_conv)

lemma squash_concat: "squash (concat xs) = concat (map squash xs)"
  by (induction xs) (simp_all add: squash_def)

lemma splitWith_content:
  "concat (map squash (splitWith sep t n)) = squash (filter (\<lambda>c. \<not> sep c) t)"
proof -
  obtain gs g' where c: "concat gs @ g' = splitOn sep t"
    and s: "splitWith sep t n
         = map (\<lambda>g. trim (join [32] g)) gs
           @ (if trim (join [32] g') = [] then [] else [trim (join [32] g')])"
    using splitWith_groups [of sep t n] by blast
  have last: "concat (map squash (if trim (join [32] g') = [] then [] else [trim (join [32] g')]))
               = squash (trim (join [32] g'))"
    by (simp add: squash_Nil_iff squash_trim)
  have "concat (map squash (splitWith sep t n))
          = concat (map (\<lambda>g. squash (trim (join [32] g))) gs) @ squash (trim (join [32] g'))"
    unfolding s using last by (simp add: comp_def)
  also have "\<dots> = concat (map (\<lambda>g. concat (map squash g)) gs) @ concat (map squash g')"
    by (simp add: squash_trim squash_join)
  also have "\<dots> = concat (map squash (concat gs @ g'))"
    by (induction gs) simp_all
  also have "\<dots> = squash (concat (splitOn sep t))"
    unfolding c by (simp only: squash_concat)
  finally show ?thesis
    by (simp add: concat_splitOn)
qed

lemma blank_group_list_all: "(trim (join [32] g) = []) = list_all (\<lambda>s. trim s = []) g"
  by (simp add: blank_group list_all_iff)

text \<open>
  Claim C5. For every text and every chunk size, in \<open>splitIntoChunks\<close> and in
  \<open>splitText\<close>: the sentence sequence of the text (its pieces between the runs of
  separators) is cut into consecutive runs \<open>gs\<close> and a last run \<open>g'\<close>, in order, with
  nothing left out and nothing repeated; the chunks are, in the same order, the runs with
  their sentences joined by a space and trimmed, where only a last run made of blank
  sentences gives no chunk. So no sentence is dropped, duplicated, reordered or split.
  On the level of code units: the chunks, white space aside, hold exactly the text without
  its separators and white space.
\<close>

theorem splitIntoChunks_reconstructs:
  "(\<exists>gs g'. concat gs @ g' = splitOn isSentenceSep_base t \<and> [] \<notin> set gs
       \<and> splitIntoChunks t n
           = map (\<lambda>g. trim (join [32] g)) gs
             @ (if list_all (\<lambda>s. trim s = []) g' then [] else [trim (join [32] g')]))
   \<and> concat (map squash (splitIntoChunks t n)) = squash (filter (\<lambda>c. \<not> isSentenceSep_base c) t)
   \<and> (\<exists>gs g'. concat gs @ g' = splitOn isSentenceSep_hf t \<and> [] \<notin> set gs
       \<and> splitText t n
           = map (\<lambda>g. trim (join [32] g)) gs
             @ (if list_all (\<lambda>s. trim s = []) g' then [] else [trim (join [32] g')]))
   \<and> concat (map squash (splitText t n)) = squash (filter (\<lambda>c. \<not> isSentenceSep_hf c) t)"
  using splitWith_groups [of isSentenceSep_base t n] splitWith_groups [of isSentenceSep_hf t n]
  by (simp add: splitIntoChunks_def splitText_def splitWith_content blank_group_list_all)

text \<open>
  The theorem at a text of three sentences and a chunk size of 30: the first sentence is a
  chunk of its own, the second and third share one, and the empty piece after the last
  full stop is the blank last run.
\<close>

theorem splitIntoChunks_reconstructs_witness:
  "splitOn isSentenceSep_base (str ''Plants need water. Rivers carry water. Rocks.'')
     = [str ''Plants need water'', str '' Rivers carry water'', str '' Rocks'', []]
   \<and> splitIntoChunks (str ''Plants need water. Rivers carry water. Rocks.'') 30
     = [str ''Plants need water'', str ''Rivers carry water  Rocks'']
   \<and> splitText (str ''Plants need water. Rivers carry water. Rocks.'') 30
     = [str ''Plants need water'', str ''Rivers carry water  Rocks'']
   \<and> concat (map squash (splitIntoChunks (str ''Plants need water. Rivers carry water. Rocks.'') 30))
     = str ''PlantsneedwaterRiverscarrywaterRocks''
   \<and> (\<exists>gs g'. concat gs @ g'
                 = [str ''Plants need water'', str '' Rivers carry water'', str '' Rocks'', []]
        \<and> [] \<notin> set gs
        \<and> [str ''Plants need water'', str ''Rivers carry water  Rocks'']
            = map (\<lambda>g. trim (join [32] g)) gs
              @ (if list_all (\<lambda>s. trim s = []) g' then [] else [trim (join [32] g')]))"
proof -
  have s: "splitOn isSentenceSep_base (str ''Plants need water. Rivers carry water. Rocks.'')
     = [str ''Plants need water'', str '' Rivers carry water'', str '' Rocks'', []]"
    by (simp add: eval_defs)
  have c: "splitIntoChunks (str ''Plants need water. Rivers carry water. Rocks.'') 30
     = [str ''Plants need water'', str ''Rivers carry water  Rocks'']"
    by (simp add: eval_defs)
  have d: "splitText (str ''Plants need water. Rivers carry water. Rocks.'') 30
     = [str ''Plants need water'', str ''Rivers carry water  Rocks'']"
    by (simp add: eval_defs)
  have q: "concat (map squash [str ''Plants need water'', str ''Rivers carry water  Rocks''])
     = str ''PlantsneedwaterRiverscarrywaterRocks''"
    by (simp add: eval_defs)
  note t = splitIntoChunks_reconstructs [of "str ''Plants need water. Rivers carry water. Rocks.''" 30]
  from t have g: "\<exists>gs g'. concat gs @ g'
                 = splitOn isSentenceSep_base (str ''Plants need water. Rivers carry water. Rocks.'')
        \<and> [] \<notin> set gs
        \<and> splitIntoChunks (str ''Plants need water. Rivers carry water. Rocks.'') 30
            = map (\<lambda>g. trim (join [32] g)) gs
              @ (if list_all (\<lambda>s. trim s = []) g' then [] else [trim (join [32] g')])"
    by blast
  from s c d q g show ?thesis
    by simp
qed

lemma splitOn_piece_sep:
  "\<forall>c \<in> set a. \<not> sep c \<Longrightarrow> sep d \<Longrightarrow> splitOn sep (a @ d # b) = a # splitOn sep (dropWhile sep b)"
proof (induction a)
  case Nil
  then show ?case by simp
next
  case (Cons x xs)
  then show ?case
    by (simp add: splitOn_Cons_nonsep del: splitOn.simps(2))
qed

lemma trim_id: "s \<noteq> [] \<Longrightarrow> \<not> isSpace (hd s) \<Longrightarrow> \<not> isSpace (last s) \<Longrightarrow> trim s = s"
proof -
  assume s: "s \<noteq> []" and h: "\<not> isSpace (hd s)" and l: "\<not> isSpace (last s)"
  from s h have d: "dropWhile isSpace s = s"
    by (cases s) simp_all
  from s l have "dropWhile isSpace (rev s) = rev s"
    by (cases "rev s") (simp_all add: last_rev [symmetric] del: last_rev)
  with d show ?thesis
    by (simp add: trim_def)
qed

lemma longText_sentences:
  "splitOn isSentenceSep_base longText = [replicate 500 97, replicate 250 98, replicate 250 99]"
proof -
  have n: "\<forall>c \<in> set (replicate k 97). \<not> isSentenceSep_base c"
          "\<forall>c \<in> set (replicate k 98). \<not> isSentenceSep_base c"
          "\<forall>c \<in> set (replicate k 99). \<not> isSentenceSep_base c" for k
    by (simp_all add: isSentenceSep_base_def)
  have d: "isSentenceSep_base 46"
    by (simp add: isSentenceSep_base_def)
  have b: "dropWhile isSentenceSep_base (replicate 250 98 @ 46 # replicate 250 99)
             = replicate 250 98 @ 46 # replicate 250 99"
    by (simp add: dropWhile_append3 isSentenceSep_base_def dropWhile_eq_self_iff hd_append)
  have c: "dropWhile isSentenceSep_base (replicate 250 99) = replicate 250 99"
    by (simp add: isSentenceSep_base_def dropWhile_eq_self_iff)
  show ?thesis
    unfolding longText_def
    by (simp only: splitOn_piece_sep [OF n(1) d] b splitOn_piece_sep [OF n(2) d] c
          splitOn_no_sep [OF n(3)])
qed

lemma longText_chunks:
  "splitIntoChunks longText 500 = [replicate 500 97, replicate 250 98 @ 32 # replicate 250 99]
   \<and> length (replicate 250 98 @ 32 # replicate 250 (99::nat)) = 501"
proof -
  have t1: "trim (32 # replicate 500 97) = replicate 500 97"
    by (simp add: trim_def isSpace_def dropWhile_eq_self_iff) 
  have t2: "trim (replicate 250 98 @ 32 # replicate 250 99) = replicate 250 98 @ 32 # replicate 250 99"
    by (rule trim_id) (simp_all add: isSpace_def hd_append)
  show ?thesis
    by (simp add: splitIntoChunks_def splitWith_def longText_sentences t1 t2)
qed
lemma length_trim_le: "length (trim s) \<le> length s"
proof -
  have "length (dropWhile isSpace (rev (dropWhile isSpace s))) \<le> length (rev (dropWhile isSpace s))"
    by (rule length_dropWhile_le)
  also have "\<dots> \<le> length s"
    by (simp add: length_dropWhile_le)
  finally show ?thesis
    by (simp add: trim_def)
qed

lemma boundedBuffer_trim:
  assumes "boundedBuffer n A cur" and "cur \<noteq> []"
  shows "length (trim cur) \<le> n + 1 \<or> trim cur \<in> trim ` A"
proof -
  from assms consider "length cur \<le> n + 1" | s where "s \<in> A" "cur = s \<or> cur = 32 # s"
    by (auto simp: boundedBuffer_def)
  then show ?thesis
  proof cases
    case 1
    with length_trim_le [of cur] show ?thesis
      by simp
  next
    case 2
    then have "trim cur = trim s"
      by (auto simp: trim_space_Cons)
    with 2 show ?thesis
      by blast
  qed
qed

lemma chunkLoop_bound:
  assumes "boundedBuffer n A cur" and "set ss \<subseteq> A"
      and "\<forall>c \<in> set chunks. length c \<le> n + 1 \<or> c \<in> trim ` A"
  shows "(\<forall>c \<in> set (fst (chunkLoop n chunks cur ss)). length c \<le> n + 1 \<or> c \<in> trim ` A)
         \<and> boundedBuffer n A (snd (chunkLoop n chunks cur ss))"
  using assms
proof (induction ss arbitrary: chunks cur)
  case Nil
  then show ?case by simp
next
  case (Cons s ss)
  from Cons.prems(2) have sA: "s \<in> A" and ssA: "set ss \<subseteq> A"
    by simp_all
  show ?case
  proof (cases "length (cur @ s) > n \<and> length cur > 0")
    case True
    then have "cur \<noteq> []"
      by auto
    with Cons.prems(1) have "length (trim cur) \<le> n + 1 \<or> trim cur \<in> trim ` A"
      by (rule boundedBuffer_trim)
    with Cons.prems(3)
    have c: "\<forall>c \<in> set (chunks @ [trim cur]). length c \<le> n + 1 \<or> c \<in> trim ` A"
      by auto
    have b: "boundedBuffer n A s"
      using sA by (auto simp: boundedBuffer_def)
    from Cons.IH [OF b ssA c] True show ?thesis
      by simp
  next
    case False
    have b: "boundedBuffer n A (cur @ 32 # s)"
    proof (cases "cur = []")
      case True
      with sA show ?thesis
        by (auto simp: boundedBuffer_def)
    next
      case nonempty: False
      with False have "length (cur @ s) \<le> n"
        by auto
      then show ?thesis
        by (simp add: boundedBuffer_def)
    qed
    from Cons.IH [OF b ssA Cons.prems(3)] False show ?thesis
      by auto
  qed
qed

text \<open>
  The size test misses the bound by the one space it does not count, and by no more: every
  chunk is at most \<open>chunkSize + 1\<close> long, or it is one sentence of the text, trimmed.
\<close>

lemma splitWith_bound:
  assumes "c \<in> set (splitWith sep t n)"
  shows "length c \<le> n + 1 \<or> c \<in> trim ` set (splitOn sep t)"
proof -
  let ?A = "set (splitOn sep t)"
  obtain chunks cur where l: "chunkLoop n [] [] (splitOn sep t) = (chunks, cur)"
    by (cases "chunkLoop n [] [] (splitOn sep t)")
  have "boundedBuffer n ?A []"
    by (simp add: boundedBuffer_def)
  from chunkLoop_bound [OF this subset_refl, of "[]"] l
  have ch: "\<forall>c \<in> set chunks. length c \<le> n + 1 \<or> c \<in> trim ` ?A"
    and b: "boundedBuffer n ?A cur"
    by simp_all
  have "trim cur \<noteq> [] \<Longrightarrow> length (trim cur) \<le> n + 1 \<or> trim cur \<in> trim ` ?A"
    using boundedBuffer_trim [OF b] by (cases "cur = []") (simp_all add: trim_def)
  with ch assms show ?thesis
    by (auto simp: splitWith_def l split: if_splits)
qed

text \<open>
  Claim C6. The claim wants every chunk to be at most \<open>chunkSize\<close> long or to consist of
  one sentence. The loop compares the length of buffer plus sentence with \<open>chunkSize\<close>
  and then appends a space and the sentence, so a buffer that starts without white space
  can end one code unit above the bound with more than one sentence in it: with chunk
  size 3 the text \<^verbatim>\<open>ab.c.dd\<close> gives the chunk \<^verbatim>\<open>c dd\<close> of length 4, made of the sentences
  \<^verbatim>\<open>c\<close> and \<^verbatim>\<open>dd\<close>; with chunk size 10 the text \<^verbatim>\<open>Pi is about 3.14159.26535\<close> gives
  the chunk \<^verbatim>\<open>14159 26535\<close> of length 11; with chunk size 500 the text of three
  sentences of 500, 250 and 250 letters gives a second chunk of 501 code units, made of
  two sentences.
\<close>

theorem splitIntoChunks_overflow:
  "splitOn isSentenceSep_base (str ''ab.c.dd'') = [str ''ab'', str ''c'', str ''dd'']
   \<and> splitIntoChunks (str ''ab.c.dd'') 3 = [str ''ab'', str ''c dd'']
   \<and> splitText (str ''ab.c.dd'') 3 = [str ''ab'', str ''c dd'']
   \<and> length (str ''c dd'') = 4
   \<and> splitIntoChunks (str ''Pi is about 3.14159.26535'') 10
       = [str ''Pi is about 3'', str ''14159 26535'']
   \<and> length (str ''14159 26535'') = 11
   \<and> splitOn isSentenceSep_base longText
       = [replicate 500 97, replicate 250 98, replicate 250 99]
   \<and> splitIntoChunks longText 500
       = [replicate 500 97, replicate 250 98 @ 32 # replicate 250 99]
   \<and> length (replicate 250 98 @ 32 # replicate 250 (99::nat)) = 501"
proof -
  have small: "splitOn isSentenceSep_base (str ''ab.c.dd'') = [str ''ab'', str ''c'', str ''dd'']
   \<and> splitIntoChunks (str ''ab.c.dd'') 3 = [str ''ab'', str ''c dd'']
   \<and> splitText (str ''ab.c.dd'') 3 = [str ''ab'', str ''c dd'']
   \<and> length (str ''c dd'') = 4
   \<and> splitIntoChunks (str ''Pi is about 3.14159.26535'') 10
       = [str ''Pi is about 3'', str ''14159 26535'']
   \<and> length (str ''14159 26535'') = 11"
    by (simp add: eval_defs)
  from small longText_sentences longText_chunks show ?thesis
    by blast
qed

end
